theory Spec2Isabelle
  imports Main "HOL-Library.Word" "HOL-Library.Sublist"
begin

section \<open>Data model (internal/models)\<close>

text \<open>
  A \<^verbatim>\<open>float64\<close> is carried as its 64-bit pattern: the store never computes with a
  coordinate, it only copies it. A timestamp (\<^verbatim>\<open>int64\<close>, seconds since the epoch) is an
  \<open>int\<close>: no arithmetic is done on it either. The two status types are Go string types,
  so a status is any string and the named constants are five (three) particular ones.
\<close>

type_synonym float64 = "64 word"

record Location =
  Lat :: float64
  Lon :: float64

type_synonym DriverStatus = string

definition DriverAvailable :: DriverStatus where "DriverAvailable = ''available''"
definition DriverBusy :: DriverStatus where "DriverBusy = ''busy''"
definition DriverOffline :: DriverStatus where "DriverOffline = ''offline''"

record Driver =
  ID :: string
  Name :: string
  Status :: DriverStatus
  Location :: Location
  UpdatedAt :: int

type_synonym OrderStatus = string

definition OrderPending :: OrderStatus where "OrderPending = ''pending''"
definition OrderAssigned :: OrderStatus where "OrderAssigned = ''assigned''"
definition OrderPickedUp :: OrderStatus where "OrderPickedUp = ''picked_up''"
definition OrderDelivered :: OrderStatus where "OrderDelivered = ''delivered''"
definition OrderCanceled :: OrderStatus where "OrderCanceled = ''canceled''"

record Order =
  ID :: string
  Customer :: string
  Pickup :: Location
  Dropoff :: Location
  Status :: OrderStatus
  DriverID :: string
  CreatedAt :: int
  UpdatedAt :: int

text \<open>
  Objects live in memory and are named by pointers. A pointer is the index of the object
  in the list of all objects of its type allocated so far; allocating appends. The maps of
  a \<^verbatim>\<open>StateSnapshot\<close> hold pointers, as the maps of the store do.
\<close>

type_synonym ptr = nat

record StateSnapshot =
  Drivers :: "string \<rightharpoonup> ptr"
  Orders :: "string \<rightharpoonup> ptr"
  Timestamp :: int

definition IsValidDriverStatus :: "DriverStatus \<Rightarrow> bool" where
  "IsValidDriverStatus status =
     (status = DriverAvailable \<or> status = DriverBusy \<or> status = DriverOffline)"

definition IsValidOrderStatus :: "OrderStatus \<Rightarrow> bool" where
  "IsValidOrderStatus status =
     (status = OrderPending \<or> status = OrderAssigned \<or> status = OrderPickedUp \<or>
      status = OrderDelivered \<or> status = OrderCanceled)"

text \<open>The table of \<^verbatim>\<open>CanTransitionOrderStatus\<close>, a Go map from a status to a slice.\<close>

definition validTransitions :: "OrderStatus \<rightharpoonup> OrderStatus list" where
  "validTransitions =
     map_of [(OrderPending, [OrderAssigned, OrderCanceled]),
             (OrderAssigned, [OrderPickedUp, OrderCanceled]),
             (OrderPickedUp, [OrderDelivered, OrderCanceled]),
             (OrderDelivered, []),
             (OrderCanceled, [])]"

fun allowed_loop :: "OrderStatus list \<Rightarrow> OrderStatus \<Rightarrow> bool" where
  "allowed_loop [] to = False"
| "allowed_loop (allowed # rest) to = (if allowed = to then True else allowed_loop rest to)"

definition CanTransitionOrderStatus :: "OrderStatus \<Rightarrow> OrderStatus \<Rightarrow> bool" where
  "CanTransitionOrderStatus from to =
     (case validTransitions from of
        None \<Rightarrow> False
      | Some allowedStates \<Rightarrow> allowed_loop allowedStates to)"

section \<open>Errors (pkg/errs)\<close>

text \<open>
  \<^verbatim>\<open>ErrMissingRequiredField\<close> is used by the two use cases; its declaration belongs to
  the same package as the other six.
\<close>

datatype error =
    ErrInvalidStatusUpdate
  | ErrInvalidTransition
  | ErrDriverNotAvailable
  | ErrOrderAlreadyAssigned
  | ErrDriverNotFound
  | ErrOrderNotFound
  | ErrMissingRequiredField

section \<open>The state manager (internal/repository)\<close>

text \<open>
  \<open>drivers\<close> and \<open>orders\<close> are the two maps of \<^verbatim>\<open>StateManager\<close>; their values are
  pointers. \<open>driverMem\<close> and \<open>orderMem\<close> are the memory the pointers name: every
  \<^verbatim>\<open>Driver\<close> and every \<^verbatim>\<open>Order\<close> object of the running program, those of the callers
  included. Every method holds the lock \<^verbatim>\<open>mu\<close> from its first access of the maps to
  its return, so a method is one step on this state. The clock reading
  (\<^verbatim>\<open>GetCurrentTimestamp\<close>) is an argument of the step, one for each call the method makes.
  A method returns the new state together with what the Go method returns.
\<close>

record World =
  drivers :: "string \<rightharpoonup> ptr"
  orders :: "string \<rightharpoonup> ptr"
  driverMem :: "Driver list"
  orderMem :: "Order list"

definition NewStateManager :: World where
  "NewStateManager = \<lparr>drivers = Map.empty, orders = Map.empty, driverMem = [], orderMem = []\<rparr>"

definition CreateOrUpdateDriver :: "World \<Rightarrow> ptr \<Rightarrow> int \<Rightarrow> World" where
  "CreateOrUpdateDriver w driver now =
     (let mem = (driverMem w)[driver := (driverMem w ! driver)\<lparr>Driver.UpdatedAt := now\<rparr>]
      in w\<lparr>driverMem := mem, drivers := (drivers w)(Driver.ID (mem ! driver) \<mapsto> driver)\<rparr>)"

definition GetDriver :: "World \<Rightarrow> string \<Rightarrow> World \<times> (error + ptr)" where
  "GetDriver w ident =
     (case drivers w ident of
        None \<Rightarrow> (w, Inl ErrDriverNotFound)
      | Some driver \<Rightarrow>
          (w\<lparr>driverMem := driverMem w @ [driverMem w ! driver]\<rparr>, Inr (length (driverMem w))))"

text \<open>
  Ranging over a Go map visits its entries in an order the language leaves open. The order
  is an argument: \<open>ks\<close> lists the keys as the loop meets them, and \<open>range_values\<close> gives
  the values in that order.
\<close>

definition range_values :: "(string \<rightharpoonup> ptr) \<Rightarrow> string list \<Rightarrow> ptr list" where
  "range_values m ks = List.map_filter m ks"

fun copy_drivers :: "(Driver \<Rightarrow> bool) \<Rightarrow> ptr list \<Rightarrow> Driver list \<Rightarrow> ptr list \<Rightarrow> Driver list \<times> ptr list" where
  "copy_drivers keep [] mem out = (mem, out)"
| "copy_drivers keep (driver # rest) mem out =
     (if keep (mem ! driver)
      then copy_drivers keep rest (mem @ [mem ! driver]) (out @ [length mem])
      else copy_drivers keep rest mem out)"

definition GetAllDrivers :: "World \<Rightarrow> string list \<Rightarrow> World \<times> ptr list" where
  "GetAllDrivers w ks =
     (let (mem, out) = copy_drivers (\<lambda>d. True) (range_values (drivers w) ks) (driverMem w) []
      in (w\<lparr>driverMem := mem\<rparr>, out))"

definition UpdateDriverStatus :: "World \<Rightarrow> string \<Rightarrow> DriverStatus \<Rightarrow> int \<Rightarrow> World \<times> error option" where
  "UpdateDriverStatus w ident status now =
     (if \<not> IsValidDriverStatus status then (w, Some ErrInvalidStatusUpdate)
      else case drivers w ident of
        None \<Rightarrow> (w, Some ErrDriverNotFound)
      | Some driver \<Rightarrow>
          (w\<lparr>driverMem := (driverMem w)
                [driver := (driverMem w ! driver)\<lparr>Driver.Status := status, Driver.UpdatedAt := now\<rparr>]\<rparr>,
           None))"

definition CreateOrder :: "World \<Rightarrow> ptr \<Rightarrow> int \<Rightarrow> World" where
  "CreateOrder w order now =
     (let mem = (orderMem w)
            [order := (orderMem w ! order)
               \<lparr>Order.Status := OrderPending, CreatedAt := now, Order.UpdatedAt := now,
                DriverID := ''''\<rparr>]
      in w\<lparr>orderMem := mem, orders := (orders w)(Order.ID (mem ! order) \<mapsto> order)\<rparr>)"

definition GetOrder :: "World \<Rightarrow> string \<Rightarrow> World \<times> (error + ptr)" where
  "GetOrder w ident =
     (case orders w ident of
        None \<Rightarrow> (w, Inl ErrOrderNotFound)
      | Some order \<Rightarrow>
          (w\<lparr>orderMem := orderMem w @ [orderMem w ! order]\<rparr>, Inr (length (orderMem w))))"

fun copy_orders :: "(Order \<Rightarrow> bool) \<Rightarrow> ptr list \<Rightarrow> Order list \<Rightarrow> ptr list \<Rightarrow> Order list \<times> ptr list" where
  "copy_orders keep [] mem out = (mem, out)"
| "copy_orders keep (order # rest) mem out =
     (if keep (mem ! order)
      then copy_orders keep rest (mem @ [mem ! order]) (out @ [length mem])
      else copy_orders keep rest mem out)"

definition GetAllOrders :: "World \<Rightarrow> string list \<Rightarrow> World \<times> ptr list" where
  "GetAllOrders w ks =
     (let (mem, out) = copy_orders (\<lambda>d. True) (range_values (orders w) ks) (orderMem w) []
      in (w\<lparr>orderMem := mem\<rparr>, out))"

definition UpdateOrderStatus :: "World \<Rightarrow> string \<Rightarrow> OrderStatus \<Rightarrow> int \<Rightarrow> World \<times> error option" where
  "UpdateOrderStatus w ident status now =
     (if \<not> IsValidOrderStatus status then (w, Some ErrInvalidStatusUpdate)
      else case orders w ident of
        None \<Rightarrow> (w, Some ErrOrderNotFound)
      | Some order \<Rightarrow>
          if \<not> CanTransitionOrderStatus (Order.Status (orderMem w ! order)) status
          then (w, Some ErrInvalidTransition)
          else (w\<lparr>orderMem := (orderMem w)
                  [order := (orderMem w ! order)\<lparr>Order.Status := status, Order.UpdatedAt := now\<rparr>]\<rparr>,
                None))"

definition GetPendingOrders :: "World \<Rightarrow> string list \<Rightarrow> World \<times> ptr list" where
  "GetPendingOrders w ks =
     (let (mem, out) = copy_orders (\<lambda>order. Order.Status order = OrderPending)
                         (range_values (orders w) ks) (orderMem w) []
      in (w\<lparr>orderMem := mem\<rparr>, out))"

definition GetAvailableDrivers :: "World \<Rightarrow> string list \<Rightarrow> World \<times> ptr list" where
  "GetAvailableDrivers w ks =
     (let (mem, out) = copy_drivers (\<lambda>driver. Driver.Status driver = DriverAvailable)
                         (range_values (drivers w) ks) (driverMem w) []
      in (w\<lparr>driverMem := mem\<rparr>, out))"

definition AssignOrderToDriver :: "World \<Rightarrow> string \<Rightarrow> string \<Rightarrow> int \<Rightarrow> int \<Rightarrow> World \<times> error option" where
  "AssignOrderToDriver w orderID driverID now1 now2 =
     (case orders w orderID of
        None \<Rightarrow> (w, Some ErrOrderNotFound)
      | Some order \<Rightarrow>
     (case drivers w driverID of
        None \<Rightarrow> (w, Some ErrDriverNotFound)
      | Some driver \<Rightarrow>
          if Order.Status (orderMem w ! order) \<noteq> OrderPending
          then (w, Some ErrOrderAlreadyAssigned)
          else if Driver.Status (driverMem w ! driver) \<noteq> DriverAvailable
          then (w, Some ErrDriverNotAvailable)
          else
            (w\<lparr>orderMem := (orderMem w)
                  [order := (orderMem w ! order)
                     \<lparr>Order.Status := OrderAssigned, DriverID := driverID, Order.UpdatedAt := now1\<rparr>],
                driverMem := (driverMem w)
                  [driver := (driverMem w ! driver)
                     \<lparr>Driver.Status := DriverBusy, Driver.UpdatedAt := now2\<rparr>]\<rparr>,
             None)))"

text \<open>
  \<^verbatim>\<open>GetSnapshot\<close> ranges over the drivers, then over the orders; \<open>dks\<close> and \<open>oks\<close> are
  the two orders of visit. Each entry met is copied and the copy is stored under its key.
\<close>

fun snapshot_drivers :: "(string \<rightharpoonup> ptr) \<Rightarrow> string list \<Rightarrow> Driver list \<Rightarrow> (string \<rightharpoonup> ptr)
                          \<Rightarrow> Driver list \<times> (string \<rightharpoonup> ptr)" where
  "snapshot_drivers m [] mem snap = (mem, snap)"
| "snapshot_drivers m (ident # rest) mem snap =
     (case m ident of
        None \<Rightarrow> snapshot_drivers m rest mem snap
      | Some driver \<Rightarrow>
          snapshot_drivers m rest (mem @ [mem ! driver]) (snap(ident \<mapsto> length mem)))"

fun snapshot_orders :: "(string \<rightharpoonup> ptr) \<Rightarrow> string list \<Rightarrow> Order list \<Rightarrow> (string \<rightharpoonup> ptr)
                          \<Rightarrow> Order list \<times> (string \<rightharpoonup> ptr)" where
  "snapshot_orders m [] mem snap = (mem, snap)"
| "snapshot_orders m (ident # rest) mem snap =
     (case m ident of
        None \<Rightarrow> snapshot_orders m rest mem snap
      | Some order \<Rightarrow>
          snapshot_orders m rest (mem @ [mem ! order]) (snap(ident \<mapsto> length mem)))"

definition GetSnapshot :: "World \<Rightarrow> string list \<Rightarrow> string list \<Rightarrow> int \<Rightarrow> World \<times> StateSnapshot" where
  "GetSnapshot w dks oks now =
     (let (dmem, dsnap) = snapshot_drivers (drivers w) dks (driverMem w) Map.empty;
          (omem, osnap) = snapshot_orders (orders w) oks (orderMem w) Map.empty
      in (w\<lparr>driverMem := dmem, orderMem := omem\<rparr>,
          \<lparr>Drivers = dsnap, Orders = osnap, Timestamp = now\<rparr>))"

section \<open>The use cases (internal/usecase)\<close>

definition DriverUseCase_CreateOrUpdateDriver :: "World \<Rightarrow> ptr \<Rightarrow> int \<Rightarrow> World \<times> error option" where
  "DriverUseCase_CreateOrUpdateDriver w driver now =
     (let d = driverMem w ! driver in
      if Driver.ID d = '''' \<or> Name d = '''' then (w, Some ErrMissingRequiredField)
      else if Driver.Status d \<noteq> '''' \<and> \<not> IsValidDriverStatus (Driver.Status d)
      then (w, Some ErrInvalidStatusUpdate)
      else
        let w1 = (if Driver.Status d = ''''
                  then w\<lparr>driverMem := (driverMem w)[driver := d\<lparr>Driver.Status := DriverAvailable\<rparr>]\<rparr>
                  else w)
        in (CreateOrUpdateDriver w1 driver now, None))"

definition OrderUseCase_CreateOrder :: "World \<Rightarrow> ptr \<Rightarrow> int \<Rightarrow> World \<times> error option" where
  "OrderUseCase_CreateOrder w order now =
     (let r = orderMem w ! order in
      if Order.ID r = '''' \<or> Customer r = '''' then (w, Some ErrMissingRequiredField)
      else (CreateOrder w order now, None))"

section \<open>What the store holds\<close>

text \<open>
  \<open>driverOf w k\<close> is the record the store holds under the key \<open>k\<close>: the object its map
  entry points to. \<open>allocated\<close> says that every pointer in the two maps names an object
  (Go has no dangling pointer, and a nil one cannot get into the maps: the method storing
  it writes through it first). \<open>keyed\<close> says that every entry's key is the ID of its
  object.
\<close>

definition driverOf :: "World \<Rightarrow> string \<rightharpoonup> Driver" where
  "driverOf w k = map_option (\<lambda>p. driverMem w ! p) (drivers w k)"

definition orderOf :: "World \<Rightarrow> string \<rightharpoonup> Order" where
  "orderOf w k = map_option (\<lambda>p. orderMem w ! p) (orders w k)"

definition allocated :: "World \<Rightarrow> bool" where
  "allocated w =
     ((\<forall>k p. drivers w k = Some p \<longrightarrow> p < length (driverMem w)) \<and>
      (\<forall>k p. orders w k = Some p \<longrightarrow> p < length (orderMem w)))"

definition keyed :: "World \<Rightarrow> bool" where
  "keyed w =
     ((\<forall>k p. drivers w k = Some p \<longrightarrow> Driver.ID (driverMem w ! p) = k) \<and>
      (\<forall>k p. orders w k = Some p \<longrightarrow> Order.ID (orderMem w ! p) = k))"

text \<open>
  The transition graph and the recognized statuses as the specification lists them: the
  six edges, the five order statuses, the three driver statuses. The code's own table is
  \<open>validTransitions\<close> above.
\<close>

definition transition_edges :: "(OrderStatus \<times> OrderStatus) list" where
  "transition_edges =
     [(''pending'', ''assigned''), (''pending'', ''canceled''),
      (''assigned'', ''picked_up''), (''assigned'', ''canceled''),
      (''picked_up'', ''delivered''), (''picked_up'', ''canceled'')]"

definition order_statuses :: "OrderStatus list" where
  "order_statuses = [''pending'', ''assigned'', ''picked_up'', ''delivered'', ''canceled'']"

definition driver_statuses :: "DriverStatus list" where
  "driver_statuses = [''available'', ''busy'', ''offline'']"

subsection \<open>Sample records and states\<close>

definition origin :: Location where
  "origin = \<lparr>Lat = 0, Lon = 0\<rparr>"

definition driver1 :: Driver where
  "driver1 = \<lparr>Driver.ID = ''d1'', Name = ''Dina'', Status = ''available'', Location = origin,
              UpdatedAt = 100\<rparr>"

definition order1 :: Order where
  "order1 = \<lparr>Order.ID = ''o1'', Customer = ''Carl'', Pickup = origin, Dropoff = origin,
             Status = ''pending'', DriverID = [], CreatedAt = 100, UpdatedAt = 100\<rparr>"

definition order2 :: Order where
  "order2 = \<lparr>Order.ID = ''o2'', Customer = ''Cleo'', Pickup = origin, Dropoff = origin,
             Status = ''pending'', DriverID = [], CreatedAt = 101, UpdatedAt = 101\<rparr>"

definition world1 :: World where
  "world1 = \<lparr>drivers = [''d1'' \<mapsto> 0], orders = [''o1'' \<mapsto> 0],
             driverMem = [driver1], orderMem = [order1]\<rparr>"

definition world_delivered :: World where
  "world_delivered = \<lparr>drivers = Map.empty, orders = [''o1'' \<mapsto> 0],
             driverMem = [], orderMem = [order1\<lparr>Order.Status := ''delivered''\<rparr>]\<rparr>"

definition world_two :: World where
  "world_two = world1\<lparr>orderMem := [order1\<lparr>Order.Status := ''delivered'', DriverID := ''d1''\<rparr>,
                                     order1\<lparr>Customer := ''Cora'', DriverID := ''d9''\<rparr>],
                        driverMem := [driver1,
                                      driver1\<lparr>Name := ''Dora'', Driver.Status := ''offline''\<rparr>]\<rparr>"



section \<open>The matcher (internal/service)\<close>










text \<open>
  \<open>grown w w'\<close>: the state \<open>w'\<close> has the maps of \<open>w\<close> and every object of \<open>w\<close>
  unchanged at its address; it may have objects that \<open>w\<close> has not.
\<close>

definition grown :: "World \<Rightarrow> World \<Rightarrow> bool" where
  "grown w w' =
     (drivers w' = drivers w \<and> orders w' = orders w \<and>
      prefix (driverMem w) (driverMem w') \<and> prefix (orderMem w) (orderMem w'))"

section \<open>Sequences of store operations\<close>

text \<open>
  The operations of the store as its callers reach them: the two use cases for an upsert
  and for the creation of an order, and the methods of the state manager for the rest. A
  caller obtains the object it submits by allocating it (\<open>Op_NewDriver\<close>, \<open>Op_NewOrder\<close>:
  the handler's local variable, filled from the request). An upsert or a creation through a
  pointer that names no object cannot be written in Go and is skipped. \<open>run ops\<close> is the
  state after the operations \<open>ops\<close>, from the empty store.
\<close>

datatype op =
    Op_NewDriver Driver
  | Op_NewOrder Order
  | Op_UpsertDriver ptr int
  | Op_GetDriver string
  | Op_ListDrivers "string list"
  | Op_SetDriverStatus string DriverStatus int
  | Op_ListAvailableDrivers "string list"
  | Op_CreateOrder ptr int
  | Op_GetOrder string
  | Op_ListOrders "string list"
  | Op_ListPendingOrders "string list"
  | Op_SetOrderStatus string OrderStatus int
  | Op_AssignOrderToDriver string string int int
  | Op_Snapshot "string list" "string list" int

fun exec :: "World \<Rightarrow> op \<Rightarrow> World" where
  "exec w (Op_NewDriver d) = w\<lparr>driverMem := driverMem w @ [d]\<rparr>"
| "exec w (Op_NewOrder r) = w\<lparr>orderMem := orderMem w @ [r]\<rparr>"
| "exec w (Op_UpsertDriver p now) =
     (if p < length (driverMem w) then fst (DriverUseCase_CreateOrUpdateDriver w p now) else w)"
| "exec w (Op_GetDriver k) = fst (GetDriver w k)"
| "exec w (Op_ListDrivers ks) = fst (GetAllDrivers w ks)"
| "exec w (Op_SetDriverStatus k status now) = fst (UpdateDriverStatus w k status now)"
| "exec w (Op_ListAvailableDrivers ks) = fst (GetAvailableDrivers w ks)"
| "exec w (Op_CreateOrder p now) =
     (if p < length (orderMem w) then fst (OrderUseCase_CreateOrder w p now) else w)"
| "exec w (Op_GetOrder k) = fst (GetOrder w k)"
| "exec w (Op_ListOrders ks) = fst (GetAllOrders w ks)"
| "exec w (Op_ListPendingOrders ks) = fst (GetPendingOrders w ks)"
| "exec w (Op_SetOrderStatus k status now) = fst (UpdateOrderStatus w k status now)"
| "exec w (Op_AssignOrderToDriver orderID driverID now1 now2) =
     fst (AssignOrderToDriver w orderID driverID now1 now2)"
| "exec w (Op_Snapshot dks oks now) = fst (GetSnapshot w dks oks now)"

definition run :: "op list \<Rightarrow> World" where
  "run ops = foldl exec NewStateManager ops"

text \<open>What holds of the store in every state of a run.\<close>

definition store_inv :: "World \<Rightarrow> bool" where
  "store_inv w =
     (allocated w \<and> keyed w \<and> driverOf w [] = None \<and>
      (\<forall>k r. orderOf w k = Some r \<longrightarrow>
         IsValidOrderStatus (Order.Status r) \<and>
         (Order.Status r = OrderPending \<longrightarrow> DriverID r = []) \<and>
         (DriverID r \<noteq> [] \<longrightarrow> driverOf w (DriverID r) \<noteq> None)))"


definition busy_drivers_are_assignees :: "World \<Rightarrow> bool" where
  "busy_drivers_are_assignees w =
     (\<forall>k d. driverOf w k = Some d \<and> Driver.Status d = DriverBusy \<longrightarrow>
        (\<exists>oid r. orderOf w oid = Some r \<and> DriverID r = k \<and>
           Order.Status r \<in> {OrderPending, OrderAssigned, OrderPickedUp}))"

definition snapshot_consistent :: "World \<Rightarrow> StateSnapshot \<Rightarrow> bool" where
  "snapshot_consistent w snap =
     (\<forall>oid po pd. Orders snap oid = Some po \<and> Order.Status (orderMem w ! po) = OrderAssigned \<and>
        Drivers snap (DriverID (orderMem w ! po)) = Some pd \<longrightarrow>
        Driver.Status (driverMem w ! pd) \<noteq> DriverAvailable)"

text \<open>
  \<open>referenced w k\<close>: an assigned order of the store refers to the driver \<open>k\<close>.
  \<open>releases w op\<close>: the operation writes the status \<open>available\<close> to such a driver.
  \<open>no_release w ops\<close>: no operation of \<open>ops\<close>, run from \<open>w\<close>, does.
\<close>

definition referenced :: "World \<Rightarrow> string \<Rightarrow> bool" where
  "referenced w k =
     (\<exists>oid r. orderOf w oid = Some r \<and> Order.Status r = OrderAssigned \<and> DriverID r = k)"

fun releases :: "World \<Rightarrow> op \<Rightarrow> bool" where
  "releases w (Op_UpsertDriver p now) =
     (p < length (driverMem w) \<and>
      (Driver.Status (driverMem w ! p) = DriverAvailable \<or> Driver.Status (driverMem w ! p) = []) \<and>
      referenced w (Driver.ID (driverMem w ! p)))"
| "releases w (Op_SetDriverStatus k status now) = (status = DriverAvailable \<and> referenced w k)"
| "releases w _ = False"

fun no_release :: "World \<Rightarrow> op list \<Rightarrow> bool" where
  "no_release w [] = True"
| "no_release w (op # ops) = (\<not> releases w op \<and> no_release (exec w op) ops)"

definition view_consistent :: "World \<Rightarrow> bool" where
  "view_consistent w =
     (\<forall>oid r d. orderOf w oid = Some r \<and> Order.Status r = OrderAssigned \<and>
        driverOf w (DriverID r) = Some d \<longrightarrow> Driver.Status d \<noteq> DriverAvailable)"

subsection \<open>Sample runs\<close>

definition ops_ready :: "op list" where
  "ops_ready = [Op_NewDriver driver1, Op_UpsertDriver 0 100, Op_NewOrder order1, Op_CreateOrder 0 100]"

definition ops_assigned :: "op list" where
  "ops_assigned = ops_ready @ [Op_AssignOrderToDriver ''o1'' ''d1'' 200 201]"


definition ops_busy :: "op list" where
  "ops_busy = [Op_NewDriver (driver1\<lparr>Driver.Status := ''busy''\<rparr>), Op_UpsertDriver 0 100]"

definition ops_released :: "op list" where
  "ops_released = ops_assigned @ [Op_SetDriverStatus ''d1'' ''available'' 300]"

section \<open>Callers and the objects they hold\<close>

text \<open>
  A caller that holds a pointer can write through it (\<^verbatim>\<open>*p = x\<close>, or a field at a
  time); no lock is involved. \<open>submits_driver op q\<close>: the operation hands the pointer \<open>q\<close>
  to the store as the driver to upsert; \<open>submits_order\<close> likewise for the creation of an
  order.
\<close>

definition write_driver :: "World \<Rightarrow> ptr \<Rightarrow> Driver \<Rightarrow> World" where
  "write_driver w p x = w\<lparr>driverMem := (driverMem w)[p := x]\<rparr>"

definition write_order :: "World \<Rightarrow> ptr \<Rightarrow> Order \<Rightarrow> World" where
  "write_order w p x = w\<lparr>orderMem := (orderMem w)[p := x]\<rparr>"

fun submits_driver :: "op \<Rightarrow> ptr \<Rightarrow> bool" where
  "submits_driver (Op_UpsertDriver p now) q = (p = q)"
| "submits_driver _ q = False"

fun submits_order :: "op \<Rightarrow> ptr \<Rightarrow> bool" where
  "submits_order (Op_CreateOrder p now) q = (p = q)"
| "submits_order _ q = False"

definition ops_upserted :: "op list" where
  "ops_upserted = [Op_NewDriver driver1, Op_UpsertDriver 0 100]"

definition mallory :: Driver where
  "mallory = driver1\<lparr>Name := ''Mallory'', Driver.Status := ''on holiday''\<rparr>"

section \<open>Properties of the single operations\<close>

lemmas order_status_defs =
  OrderPending_def OrderAssigned_def OrderPickedUp_def OrderDelivered_def OrderCanceled_def

lemmas driver_status_defs = DriverAvailable_def DriverBusy_def DriverOffline_def

lemma allowed_loop_mem: "allowed_loop xs to = (to \<in> set xs)"
  by (induction xs) auto

lemma CanTransitionOrderStatus_edges:
  "CanTransitionOrderStatus from to = ((from, to) \<in> set transition_edges)"
  by (auto simp: CanTransitionOrderStatus_def validTransitions_def transition_edges_def
        allowed_loop_mem order_status_defs split: option.splits if_splits)

lemma IsValidOrderStatus_list: "IsValidOrderStatus s = (s \<in> set order_statuses)"
  by (auto simp: IsValidOrderStatus_def order_statuses_def order_status_defs)

lemma IsValidDriverStatus_list: "IsValidDriverStatus s = (s \<in> set driver_statuses)"
  by (auto simp: IsValidDriverStatus_def driver_statuses_def driver_status_defs)

lemma allocated_world1: "allocated world1"
  by (simp add: allocated_def world1_def)

lemma allocated_world_two: "allocated world_two"
  by (simp add: allocated_def world_two_def world1_def)

text \<open>
  Claim C1. \<^verbatim>\<open>AssignOrderToDriver\<close> fails with a not-found error when the order ID or
  the driver ID is unknown; when both are known it fails with \<^verbatim>\<open>ErrOrderAlreadyAssigned\<close>
  if the order is not pending, and, the order being pending, with
  \<^verbatim>\<open>ErrDriverNotAvailable\<close> if the driver is not available. Otherwise it succeeds: the
  order the store holds is the old one with status \<open>assigned\<close>, the driver's ID as driver
  reference and the first clock reading as update time, and the driver it holds is the old
  one with status \<open>busy\<close> and the second clock reading as update time. Whenever it fails,
  the whole state is what it was.
\<close>

theorem AssignOrderToDriver_contract:
  assumes "allocated w"
    and "AssignOrderToDriver w orderID driverID now1 now2 = (w', err)"
  shows "(orders w orderID = None \<or> drivers w driverID = None \<longrightarrow>
            err = Some ErrOrderNotFound \<or> err = Some ErrDriverNotFound)
       \<and> (\<forall>ord drv. orderOf w orderID = Some ord \<and> driverOf w driverID = Some drv \<longrightarrow>
            (Order.Status ord \<noteq> OrderPending \<longrightarrow> err = Some ErrOrderAlreadyAssigned)
          \<and> (Order.Status ord = OrderPending \<and> Driver.Status drv \<noteq> DriverAvailable \<longrightarrow>
               err = Some ErrDriverNotAvailable)
          \<and> (Order.Status ord = OrderPending \<and> Driver.Status drv = DriverAvailable \<longrightarrow>
               err = None
             \<and> orderOf w' orderID = Some (ord\<lparr>Order.Status := OrderAssigned, DriverID := driverID,
                                               Order.UpdatedAt := now1\<rparr>)
             \<and> driverOf w' driverID = Some (drv\<lparr>Driver.Status := DriverBusy,
                                                 Driver.UpdatedAt := now2\<rparr>)))
       \<and> (err \<noteq> None \<longrightarrow> w' = w)"
  using assms
  by (auto simp: AssignOrderToDriver_def allocated_def orderOf_def driverOf_def
           split: option.splits if_splits)

theorem AssignOrderToDriver_contract_witness:
  "allocated world1
   \<and> snd (AssignOrderToDriver world1 ''o1'' ''d1'' 200 201) = None
   \<and> orderOf (fst (AssignOrderToDriver world1 ''o1'' ''d1'' 200 201)) ''o1''
       = Some (order1\<lparr>Order.Status := ''assigned'', DriverID := ''d1'', Order.UpdatedAt := 200\<rparr>)
   \<and> driverOf (fst (AssignOrderToDriver world1 ''o1'' ''d1'' 200 201)) ''d1''
       = Some (driver1\<lparr>Driver.Status := ''busy'', Driver.UpdatedAt := 201\<rparr>)"
proof -
  have o: "orderOf world1 ''o1'' = Some order1" and d: "driverOf world1 ''d1'' = Some driver1"
    by (simp_all add: orderOf_def driverOf_def world1_def)
  have s: "Order.Status order1 = OrderPending" "Driver.Status driver1 = DriverAvailable"
    by (simp_all add: order1_def driver1_def OrderPending_def DriverAvailable_def)
  from AssignOrderToDriver_contract [OF allocated_world1 surjective_pairing,
         of "''o1''" "''d1''" 200 201] o d s
  show ?thesis using allocated_world1 by (simp add: OrderAssigned_def DriverBusy_def)
qed

text \<open>
  Claim C2. For a stored order whose status \<open>from\<close> is one of the five recognized ones
  and a requested status \<open>to\<close> that is one of the five: when \<open>(from, to)\<close> is not one of
  the six edges of the transition graph, \<^verbatim>\<open>UpdateOrderStatus\<close> returns
  \<^verbatim>\<open>ErrInvalidTransition\<close> and the state is what it was; when it is an edge, the call
  succeeds and the store holds the old order with the new status and the clock reading as
  update time.
\<close>

theorem UpdateOrderStatus_transition_graph:
  assumes "allocated w" and "orderOf w ident = Some ord"
    and "Order.Status ord \<in> set order_statuses" and "to \<in> set order_statuses"
  shows "((Order.Status ord, to) \<notin> set transition_edges \<longrightarrow>
            UpdateOrderStatus w ident to now = (w, Some ErrInvalidTransition))
       \<and> ((Order.Status ord, to) \<in> set transition_edges \<longrightarrow>
            snd (UpdateOrderStatus w ident to now) = None
          \<and> orderOf (fst (UpdateOrderStatus w ident to now)) ident
              = Some (ord\<lparr>Order.Status := to, Order.UpdatedAt := now\<rparr>))"
  using assms
  by (auto simp: UpdateOrderStatus_def CanTransitionOrderStatus_edges IsValidOrderStatus_list
        orderOf_def allocated_def split: option.splits)

theorem UpdateOrderStatus_transition_graph_witness:
  "allocated world1 \<and> orderOf world1 ''o1'' = Some order1
   \<and> Order.Status order1 \<in> set order_statuses \<and> ''canceled'' \<in> set order_statuses
   \<and> (Order.Status order1, ''canceled'') \<in> set transition_edges
   \<and> snd (UpdateOrderStatus world1 ''o1'' ''canceled'' 300) = None
   \<and> orderOf (fst (UpdateOrderStatus world1 ''o1'' ''canceled'' 300)) ''o1''
       = Some (order1\<lparr>Order.Status := ''canceled'', Order.UpdatedAt := 300\<rparr>)
   \<and> (Order.Status order1, ''delivered'') \<notin> set transition_edges
   \<and> UpdateOrderStatus world1 ''o1'' ''delivered'' 300 = (world1, Some ErrInvalidTransition)"
proof -
  have o: "orderOf world1 ''o1'' = Some order1"
    by (simp add: orderOf_def world1_def)
  have s: "Order.Status order1 \<in> set order_statuses" "''canceled'' \<in> set order_statuses"
     "''delivered'' \<in> set order_statuses"
    by (simp_all add: order1_def order_statuses_def)
  have e: "(Order.Status order1, ''canceled'') \<in> set transition_edges"
     "(Order.Status order1, ''delivered'') \<notin> set transition_edges"
    by (simp_all add: order1_def transition_edges_def)
  from UpdateOrderStatus_transition_graph [OF allocated_world1 o s(1) s(2), of 300]
       UpdateOrderStatus_transition_graph [OF allocated_world1 o s(1) s(3), of 300]
       allocated_world1 o s e
  show ?thesis by simp
qed

text \<open>
  Claim C7. Creating an order from the record \<open>r\<close> that the pointer \<open>order\<close> names fails
  with \<^verbatim>\<open>ErrMissingRequiredField\<close>, the state unchanged, when the ID or the customer of
  \<open>r\<close> is empty. Otherwise it succeeds, whatever the store held under that ID: the store
  then holds under the ID of \<open>r\<close> the record \<open>r\<close> with status \<open>pending\<close>, an empty driver
  reference, and the clock reading as creation and update time; the entry of that ID points
  to the submitted object and no other entry of the map has changed.
\<close>

theorem CreateOrder_contract:
  assumes "order < length (orderMem w)" and "r = orderMem w ! order"
  shows "(Order.ID r = [] \<or> Customer r = [] \<longrightarrow>
            OrderUseCase_CreateOrder w order now = (w, Some ErrMissingRequiredField))
       \<and> (Order.ID r \<noteq> [] \<and> Customer r \<noteq> [] \<longrightarrow>
            snd (OrderUseCase_CreateOrder w order now) = None
          \<and> orderOf (fst (OrderUseCase_CreateOrder w order now)) (Order.ID r)
              = Some (r\<lparr>Order.Status := ''pending'', DriverID := [], CreatedAt := now,
                        Order.UpdatedAt := now\<rparr>)
          \<and> orders (fst (OrderUseCase_CreateOrder w order now))
              = (orders w)(Order.ID r \<mapsto> order))"
  using assms
  by (auto simp: OrderUseCase_CreateOrder_def CreateOrder_def orderOf_def Let_def OrderPending_def)

theorem CreateOrder_contract_witness:
  "1 < length (orderMem world_two)
   \<and> orderOf world_two ''o1'' = Some (order1\<lparr>Order.Status := ''delivered'', DriverID := ''d1''\<rparr>)
   \<and> snd (OrderUseCase_CreateOrder world_two 1 300) = None
   \<and> orderOf (fst (OrderUseCase_CreateOrder world_two 1 300)) ''o1''
       = Some (order1\<lparr>Customer := ''Cora'', CreatedAt := 300, Order.UpdatedAt := 300\<rparr>)"
proof -
  have l: "1 < length (orderMem world_two)"
    by (simp add: world_two_def)
  have r: "order1\<lparr>Customer := ''Cora'', DriverID := ''d9''\<rparr> = orderMem world_two ! 1"
    by (simp add: world_two_def)
  have o: "orderOf world_two ''o1''
             = Some (order1\<lparr>Order.Status := ''delivered'', DriverID := ''d1''\<rparr>)"
    by (simp add: world_two_def world1_def orderOf_def)
  from CreateOrder_contract [OF l r, of 300] l o
  show ?thesis by (simp add: order1_def)
qed

text \<open>
  Claim C8. Upserting the driver record \<open>d\<close> that the pointer \<open>driver\<close> names fails with
  \<^verbatim>\<open>ErrMissingRequiredField\<close> when its ID or name is empty. With both present: if the
  status of \<open>d\<close> is one of the three recognized values the call succeeds and the store holds
  under that ID exactly \<open>d\<close> with the clock reading as update time (nothing of a record
  held before remains); if the status is empty it succeeds and the status stored is
  \<open>available\<close>; for any other status it fails with \<^verbatim>\<open>ErrInvalidStatusUpdate\<close>, the state
  unchanged. \<^verbatim>\<open>UpdateDriverStatus\<close> on a stored driver with a recognized status succeeds
  and the store holds the old record with that status and the clock reading as update time;
  with any other status it fails with \<^verbatim>\<open>ErrInvalidStatusUpdate\<close>, the state unchanged.
\<close>

theorem driver_status_contract:
  assumes "driver < length (driverMem w)" and "d = driverMem w ! driver"
    and "allocated w"
  shows "(Driver.ID d = [] \<or> Name d = [] \<longrightarrow>
            DriverUseCase_CreateOrUpdateDriver w driver now = (w, Some ErrMissingRequiredField))
       \<and> (Driver.ID d \<noteq> [] \<and> Name d \<noteq> [] \<and> Driver.Status d \<in> set driver_statuses \<longrightarrow>
            snd (DriverUseCase_CreateOrUpdateDriver w driver now) = None
          \<and> driverOf (fst (DriverUseCase_CreateOrUpdateDriver w driver now)) (Driver.ID d)
              = Some (d\<lparr>Driver.UpdatedAt := now\<rparr>))
       \<and> (Driver.ID d \<noteq> [] \<and> Name d \<noteq> [] \<and> Driver.Status d = [] \<longrightarrow>
            snd (DriverUseCase_CreateOrUpdateDriver w driver now) = None
          \<and> driverOf (fst (DriverUseCase_CreateOrUpdateDriver w driver now)) (Driver.ID d)
              = Some (d\<lparr>Driver.Status := ''available'', Driver.UpdatedAt := now\<rparr>))
       \<and> (Driver.ID d \<noteq> [] \<and> Name d \<noteq> [] \<and> Driver.Status d \<noteq> []
            \<and> Driver.Status d \<notin> set driver_statuses \<longrightarrow>
            DriverUseCase_CreateOrUpdateDriver w driver now = (w, Some ErrInvalidStatusUpdate))
       \<and> (\<forall>old. driverOf w ident = Some old \<and> status \<in> set driver_statuses \<longrightarrow>
            snd (UpdateDriverStatus w ident status now) = None
          \<and> driverOf (fst (UpdateDriverStatus w ident status now)) ident
              = Some (old\<lparr>Driver.Status := status, Driver.UpdatedAt := now\<rparr>))
       \<and> (status \<notin> set driver_statuses \<longrightarrow>
            UpdateDriverStatus w ident status now = (w, Some ErrInvalidStatusUpdate))"
proof -
  have emp: "[] \<notin> set driver_statuses"
    by (simp add: driver_statuses_def)
  have upsert: "driverOf (CreateOrUpdateDriver v driver now) (Driver.ID (driverMem v ! driver))
      = Some ((driverMem v ! driver)\<lparr>Driver.UpdatedAt := now\<rparr>)"
    if "driver < length (driverMem v)" for v
    using that by (simp add: CreateOrUpdateDriver_def driverOf_def Let_def)
  show ?thesis
    using assms emp upsert [of w]
      upsert [of "w\<lparr>driverMem := (driverMem w)[driver := d\<lparr>Driver.Status := DriverAvailable\<rparr>]\<rparr>"]
    by (auto simp: DriverUseCase_CreateOrUpdateDriver_def UpdateDriverStatus_def
          IsValidDriverStatus_list driverOf_def allocated_def Let_def DriverAvailable_def
          split: option.splits)
qed

theorem driver_status_contract_witness:
  "1 < length (driverMem world_two) \<and> allocated world_two
   \<and> driverOf world_two ''d1'' = Some driver1
   \<and> snd (DriverUseCase_CreateOrUpdateDriver world_two 1 300) = None
   \<and> driverOf (fst (DriverUseCase_CreateOrUpdateDriver world_two 1 300)) ''d1''
       = Some (driver1\<lparr>Name := ''Dora'', Driver.Status := ''offline'', Driver.UpdatedAt := 300\<rparr>)
   \<and> snd (UpdateDriverStatus world_two ''d1'' ''busy'' 300) = None
   \<and> driverOf (fst (UpdateDriverStatus world_two ''d1'' ''busy'' 300)) ''d1''
       = Some (driver1\<lparr>Driver.Status := ''busy'', Driver.UpdatedAt := 300\<rparr>)
   \<and> UpdateDriverStatus world_two ''d1'' ''Busy'' 300 = (world_two, Some ErrInvalidStatusUpdate)"
proof -
  have l: "1 < length (driverMem world_two)"
    by (simp add: world_two_def)
  have r: "driver1\<lparr>Name := ''Dora'', Driver.Status := ''offline''\<rparr> = driverMem world_two ! 1"
    by (simp add: world_two_def)
  have o: "driverOf world_two ''d1'' = Some driver1"
    by (simp add: world_two_def world1_def driverOf_def)
  have s: "''offline'' \<in> set driver_statuses" "''busy'' \<in> set driver_statuses"
    "''Busy'' \<notin> set driver_statuses"
    by (simp_all add: driver_statuses_def)
  from driver_status_contract [OF l r allocated_world_two, of 300 "''d1''" "''busy''"]
       driver_status_contract [OF l r allocated_world_two, of 300 "''d1''" "''Busy''"]
       l o s allocated_world_two
  show ?thesis by (simp add: driver1_def)
qed

text \<open>
  Claim C10. The checks of \<^verbatim>\<open>AssignOrderToDriver\<close> come in a fixed order: an unknown
  order ID gives \<^verbatim>\<open>ErrOrderNotFound\<close> whatever the driver ID is; a known order with an
  unknown driver ID gives \<^verbatim>\<open>ErrDriverNotFound\<close> whatever the status of the order is;
  with both known, an order that is not pending gives \<^verbatim>\<open>ErrOrderAlreadyAssigned\<close>
  whatever the status of the driver is; and only then a driver that is not available gives
  \<^verbatim>\<open>ErrDriverNotAvailable\<close>. In each case the state is what it was.
\<close>

theorem AssignOrderToDriver_check_order:
  "(orders w orderID = None \<longrightarrow>
      AssignOrderToDriver w orderID driverID now1 now2 = (w, Some ErrOrderNotFound))
 \<and> (\<forall>ord. orderOf w orderID = Some ord \<and> drivers w driverID = None \<longrightarrow>
      AssignOrderToDriver w orderID driverID now1 now2 = (w, Some ErrDriverNotFound))
 \<and> (\<forall>ord drv. orderOf w orderID = Some ord \<and> driverOf w driverID = Some drv
        \<and> Order.Status ord \<noteq> OrderPending \<longrightarrow>
      AssignOrderToDriver w orderID driverID now1 now2 = (w, Some ErrOrderAlreadyAssigned))
 \<and> (\<forall>ord drv. orderOf w orderID = Some ord \<and> driverOf w driverID = Some drv
        \<and> Order.Status ord = OrderPending \<and> Driver.Status drv \<noteq> DriverAvailable \<longrightarrow>
      AssignOrderToDriver w orderID driverID now1 now2 = (w, Some ErrDriverNotAvailable))"
  by (auto simp: AssignOrderToDriver_def orderOf_def driverOf_def split: option.splits)

theorem AssignOrderToDriver_check_order_witness:
  "orders NewStateManager ''o1'' = None \<and> drivers NewStateManager ''d1'' = None
   \<and> snd (AssignOrderToDriver NewStateManager ''o1'' ''d1'' 200 201) = Some ErrOrderNotFound
   \<and> orderOf world_delivered ''o1'' = Some (order1\<lparr>Order.Status := ''delivered''\<rparr>)
   \<and> drivers world_delivered ''d1'' = None
   \<and> snd (AssignOrderToDriver world_delivered ''o1'' ''d1'' 200 201) = Some ErrDriverNotFound"
proof -
  have e: "orders NewStateManager ''o1'' = None" "drivers NewStateManager ''d1'' = None"
    by (simp_all add: NewStateManager_def)
  have d: "orderOf world_delivered ''o1'' = Some (order1\<lparr>Order.Status := ''delivered''\<rparr>)"
    "drivers world_delivered ''d1'' = None"
    by (simp_all add: orderOf_def world_delivered_def)
  from AssignOrderToDriver_check_order [of NewStateManager "''o1''" "''d1''" 200 201]
       AssignOrderToDriver_check_order [of world_delivered "''o1''" "''d1''" 200 201] e d
  show ?thesis by simp
qed

section \<open>Reads, the store seen through them, and the matcher\<close>


lemma Assign_fail_same: "snd (AssignOrderToDriver w a b t1 t2) \<noteq> None \<Longrightarrow> fst (AssignOrderToDriver w a b t1 t2) = w"
  by (auto simp: AssignOrderToDriver_def split: option.splits if_splits)











lemma copy_orders_closed:
  assumes "\<forall>p \<in> set ps. p < length mem"
  shows "copy_orders keep ps mem out =
           (mem @ map (\<lambda>p. mem ! p) (filter (\<lambda>p. keep (mem ! p)) ps),
            out @ [length mem ..< length mem + length (filter (\<lambda>p. keep (mem ! p)) ps)])"
  using assms
proof (induction ps arbitrary: mem out)
  case Nil
  then show ?case by simp
next
  case (Cons p ps)
  show ?case
  proof (cases "keep (mem ! p)")
    case False
    with Cons show ?thesis by simp
  next
    case True
    let ?mem = "mem @ [mem ! p]"
    have same: "?mem ! q = mem ! q" if "q \<in> set ps" for q
      using that Cons.prems by (simp add: nth_append)
    have f: "filter (\<lambda>q. keep (?mem ! q)) ps = filter (\<lambda>q. keep (mem ! q)) ps"
      by (rule filter_cong) (simp_all add: same)
    have m: "map (\<lambda>q. ?mem ! q) (filter (\<lambda>q. keep (mem ! q)) ps)
           = map (\<lambda>q. mem ! q) (filter (\<lambda>q. keep (mem ! q)) ps)"
      by (rule map_cong) (simp_all add: same)
    have ih: "copy_orders keep ps ?mem (out @ [length mem]) =
           (?mem @ map (\<lambda>q. ?mem ! q) (filter (\<lambda>q. keep (?mem ! q)) ps),
            (out @ [length mem]) @ [length ?mem ..< length ?mem + length (filter (\<lambda>q. keep (?mem ! q)) ps)])"
      by (rule Cons.IH) (use Cons.prems in \<open>simp add: less_Suc_eq\<close>)
    have u: "length mem # [Suc (length mem) ..< Suc (length mem + k)]
               = [length mem ..< Suc (length mem + k)]" for k
      using upt_conv_Cons [of "length mem" "Suc (length mem + k)"] by simp
    from True ih show ?thesis
      by (simp add: f m u del: upt_Suc)
  qed
qed

lemma copy_drivers_closed:
  assumes "\<forall>p \<in> set ps. p < length mem"
  shows "copy_drivers keep ps mem out =
           (mem @ map (\<lambda>p. mem ! p) (filter (\<lambda>p. keep (mem ! p)) ps),
            out @ [length mem ..< length mem + length (filter (\<lambda>p. keep (mem ! p)) ps)])"
  using assms
proof (induction ps arbitrary: mem out)
  case Nil
  then show ?case by simp
next
  case (Cons p ps)
  show ?case
  proof (cases "keep (mem ! p)")
    case False
    with Cons show ?thesis by simp
  next
    case True
    let ?mem = "mem @ [mem ! p]"
    have same: "?mem ! q = mem ! q" if "q \<in> set ps" for q
      using that Cons.prems by (simp add: nth_append)
    have f: "filter (\<lambda>q. keep (?mem ! q)) ps = filter (\<lambda>q. keep (mem ! q)) ps"
      by (rule filter_cong) (simp_all add: same)
    have m: "map (\<lambda>q. ?mem ! q) (filter (\<lambda>q. keep (mem ! q)) ps)
           = map (\<lambda>q. mem ! q) (filter (\<lambda>q. keep (mem ! q)) ps)"
      by (rule map_cong) (simp_all add: same)
    have ih: "copy_drivers keep ps ?mem (out @ [length mem]) =
           (?mem @ map (\<lambda>q. ?mem ! q) (filter (\<lambda>q. keep (?mem ! q)) ps),
            (out @ [length mem]) @ [length ?mem ..< length ?mem + length (filter (\<lambda>q. keep (?mem ! q)) ps)])"
      by (rule Cons.IH) (use Cons.prems in \<open>simp add: less_Suc_eq\<close>)
    have u: "length mem # [Suc (length mem) ..< Suc (length mem + k)]
               = [length mem ..< Suc (length mem + k)]" for k
      using upt_conv_Cons [of "length mem" "Suc (length mem + k)"] by simp
    from True ih show ?thesis
      by (simp add: f m u del: upt_Suc)
  qed
qed

lemma range_values_set: "p \<in> set (range_values m ks) \<Longrightarrow> \<exists>k. m k = Some p"
  by (induction ks) (auto simp: range_values_def split: option.splits)


lemma grown_refl: "grown w w"
  by (simp add: grown_def)


lemma grown_views:
  assumes "allocated w" and "grown w w'"
  shows "driverOf w' = driverOf w" and "orderOf w' = orderOf w" and "allocated w'"
    and "keyed w \<Longrightarrow> keyed w'"
proof -
  from assms(2) obtain xs ys where m: "drivers w' = drivers w" "orders w' = orders w"
    "driverMem w' = driverMem w @ xs" "orderMem w' = orderMem w @ ys"
    by (auto simp: grown_def prefix_def)
  have d: "driverMem w' ! p = driverMem w ! p" if "drivers w k = Some p" for k p
    using that assms(1) m by (auto simp: allocated_def nth_append)
  have o: "orderMem w' ! p = orderMem w ! p" if "orders w k = Some p" for k p
    using that assms(1) m by (auto simp: allocated_def nth_append)
  show "driverOf w' = driverOf w"
  proof
    fix k show "driverOf w' k = driverOf w k"
      using d [of k] by (cases "drivers w k") (simp_all add: driverOf_def m(1))
  qed
  show "orderOf w' = orderOf w"
  proof
    fix k show "orderOf w' k = orderOf w k"
      using o [of k] by (cases "orders w k") (simp_all add: orderOf_def m(2))
  qed
  show "allocated w'"
    using assms(1) m by (auto simp: allocated_def intro: trans_less_add1)
  show "keyed w'" if "keyed w"
    using that m d o by (auto simp: keyed_def)
qed









lemma keyed_orders_inj: "keyed w \<Longrightarrow> orders w k = Some p \<Longrightarrow> orders w a = Some p \<Longrightarrow> k = a"
  unfolding keyed_def by blast

lemma keyed_drivers_inj: "keyed w \<Longrightarrow> drivers w k = Some p \<Longrightarrow> drivers w a = Some p \<Longrightarrow> k = a"
  unfolding keyed_def by blast

lemma orderOf_update:
  assumes "allocated w" and "keyed w" and "orders w a = Some p"
  shows "orderOf (w\<lparr>orderMem := (orderMem w)[p := x]\<rparr>) = (orderOf w)(a \<mapsto> x)"
proof
  fix k
  show "orderOf (w\<lparr>orderMem := (orderMem w)[p := x]\<rparr>) k = ((orderOf w)(a \<mapsto> x)) k"
  proof (cases "k = a")
    case True
    with assms show ?thesis by (simp add: orderOf_def allocated_def)
  next
    case False
    show ?thesis
    proof (cases "orders w k")
      case None
      with False show ?thesis by (simp add: orderOf_def)
    next
      case (Some q)
      with assms False have "q \<noteq> p" by (auto dest: keyed_orders_inj)
      with Some False show ?thesis by (simp add: orderOf_def)
    qed
  qed
qed

lemma driverOf_update:
  assumes "allocated w" and "keyed w" and "drivers w a = Some p"
  shows "driverOf (w\<lparr>driverMem := (driverMem w)[p := x]\<rparr>) = (driverOf w)(a \<mapsto> x)"
proof
  fix k
  show "driverOf (w\<lparr>driverMem := (driverMem w)[p := x]\<rparr>) k = ((driverOf w)(a \<mapsto> x)) k"
  proof (cases "k = a")
    case True
    with assms show ?thesis by (simp add: driverOf_def allocated_def)
  next
    case False
    show ?thesis
    proof (cases "drivers w k")
      case None
      with False show ?thesis by (simp add: driverOf_def)
    next
      case (Some q)
      with assms False have "q \<noteq> p" by (auto dest: keyed_drivers_inj)
      with Some False show ?thesis by (simp add: driverOf_def)
    qed
  qed
qed

lemma orderOf_driverMem [simp]: "orderOf (w\<lparr>driverMem := m\<rparr>) = orderOf w"
  by (rule ext) (simp add: orderOf_def)

lemma driverOf_orderMem [simp]: "driverOf (w\<lparr>orderMem := m\<rparr>) = driverOf w"
  by (rule ext) (simp add: driverOf_def)

lemma wf_order_update:
  assumes "allocated w" and "keyed w" and "orders w a = Some p" and "Order.ID x = a"
  shows "allocated (w\<lparr>orderMem := (orderMem w)[p := x]\<rparr>)"
    and "keyed (w\<lparr>orderMem := (orderMem w)[p := x]\<rparr>)"
proof -
  show "allocated (w\<lparr>orderMem := (orderMem w)[p := x]\<rparr>)"
    using assms(1) by (simp add: allocated_def)
  have "Order.ID ((orderMem w)[p := x] ! q) = k" if "orders w k = Some q" for k q
  proof (cases "q = p")
    case True
    with that assms show ?thesis
      by (auto simp: allocated_def dest: keyed_orders_inj)
  next
    case False
    with that assms(2) show ?thesis by (simp add: keyed_def)
  qed
  with assms(2) show "keyed (w\<lparr>orderMem := (orderMem w)[p := x]\<rparr>)"
    by (simp add: keyed_def)
qed

lemma wf_driver_update:
  assumes "allocated w" and "keyed w" and "drivers w a = Some p" and "Driver.ID x = a"
  shows "allocated (w\<lparr>driverMem := (driverMem w)[p := x]\<rparr>)"
    and "keyed (w\<lparr>driverMem := (driverMem w)[p := x]\<rparr>)"
proof -
  show "allocated (w\<lparr>driverMem := (driverMem w)[p := x]\<rparr>)"
    using assms(1) by (simp add: allocated_def)
  have "Driver.ID ((driverMem w)[p := x] ! q) = k" if "drivers w k = Some q" for k q
  proof (cases "q = p")
    case True
    with that assms show ?thesis
      by (auto simp: allocated_def dest: keyed_drivers_inj)
  next
    case False
    with that assms(2) show ?thesis by (simp add: keyed_def)
  qed
  with assms(2) show "keyed (w\<lparr>driverMem := (driverMem w)[p := x]\<rparr>)"
    by (simp add: keyed_def)
qed

lemma Assign_success:
  assumes "allocated w" and "keyed w"
    and "orderOf w a = Some ord" and "Order.Status ord = OrderPending"
    and "driverOf w d = Some drv" and "Driver.Status drv = DriverAvailable"
  shows "snd (AssignOrderToDriver w a d t1 t2) = None"
    and "orderOf (fst (AssignOrderToDriver w a d t1 t2))
           = (orderOf w)(a \<mapsto> ord\<lparr>Order.Status := OrderAssigned, DriverID := d, Order.UpdatedAt := t1\<rparr>)"
    and "driverOf (fst (AssignOrderToDriver w a d t1 t2))
           = (driverOf w)(d \<mapsto> drv\<lparr>Driver.Status := DriverBusy, Driver.UpdatedAt := t2\<rparr>)"
    and "allocated (fst (AssignOrderToDriver w a d t1 t2))"
    and "keyed (fst (AssignOrderToDriver w a d t1 t2))"
proof -
  from assms(3) obtain p where p: "orders w a = Some p" "ord = orderMem w ! p"
    by (auto simp: orderOf_def)
  from assms(5) obtain q where q: "drivers w d = Some q" "drv = driverMem w ! q"
    by (auto simp: driverOf_def)
  let ?ord = "ord\<lparr>Order.Status := OrderAssigned, DriverID := d, Order.UpdatedAt := t1\<rparr>"
  let ?drv = "drv\<lparr>Driver.Status := DriverBusy, Driver.UpdatedAt := t2\<rparr>"
  let ?w1 = "w\<lparr>orderMem := (orderMem w)[p := ?ord]\<rparr>"
  have r: "AssignOrderToDriver w a d t1 t2 = (?w1\<lparr>driverMem := (driverMem ?w1)[q := ?drv]\<rparr>, None)"
    using p q assms(4,6) by (simp add: AssignOrderToDriver_def)
  have ida: "Order.ID ?ord = a" "Driver.ID ?drv = d"
    using p q assms(2) by (auto simp: keyed_def)
  note w1 = wf_order_update [OF assms(1,2) p(1) ida(1)]
  have q1: "drivers ?w1 d = Some q" using q by simp
  show "snd (AssignOrderToDriver w a d t1 t2) = None" by (simp add: r)
  show "orderOf (fst (AssignOrderToDriver w a d t1 t2)) = (orderOf w)(a \<mapsto> ?ord)"
    using orderOf_update [OF assms(1,2) p(1), of ?ord] by (simp add: r)
  show "driverOf (fst (AssignOrderToDriver w a d t1 t2)) = (driverOf w)(d \<mapsto> ?drv)"
    using driverOf_update [OF w1 q1, of ?drv] by (simp add: r)
  show "allocated (fst (AssignOrderToDriver w a d t1 t2))"
    using wf_driver_update(1) [OF w1 q1 ida(2)] by (simp add: r)
  show "keyed (fst (AssignOrderToDriver w a d t1 t2))"
    using wf_driver_update(2) [OF w1 q1 ida(2)] by (simp add: r)
qed









section \<open>Runs of operations and what they preserve\<close>


lemma driverOf_insert:
  assumes "allocated w" and "keyed w" and "p < length (driverMem w)"
    and "Driver.ID x = Driver.ID (driverMem w ! p)"
  shows "driverOf (w\<lparr>driverMem := (driverMem w)[p := x], drivers := (drivers w)(Driver.ID x \<mapsto> p)\<rparr>)
           = (driverOf w)(Driver.ID x \<mapsto> x)"
    and "allocated (w\<lparr>driverMem := (driverMem w)[p := x], drivers := (drivers w)(Driver.ID x \<mapsto> p)\<rparr>)"
    and "keyed (w\<lparr>driverMem := (driverMem w)[p := x], drivers := (drivers w)(Driver.ID x \<mapsto> p)\<rparr>)"
proof -
  let ?w = "w\<lparr>driverMem := (driverMem w)[p := x], drivers := (drivers w)(Driver.ID x \<mapsto> p)\<rparr>"
  have other: "q \<noteq> p" if "drivers w k = Some q" "k \<noteq> Driver.ID x" for k q
    using that assms(2,4) by (auto simp: keyed_def)
  show "driverOf ?w = (driverOf w)(Driver.ID x \<mapsto> x)"
  proof
    fix k show "driverOf ?w k = ((driverOf w)(Driver.ID x \<mapsto> x)) k"
      using assms(3) other [of k] by (cases "drivers w k") (auto simp: driverOf_def)
  qed
  show "allocated ?w"
    using assms(1,3) by (simp add: allocated_def)
  show "keyed ?w"
    using assms(2,3) other by (auto simp: keyed_def nth_list_update)
qed

lemma orderOf_insert:
  assumes "allocated w" and "keyed w" and "p < length (orderMem w)"
    and "Order.ID x = Order.ID (orderMem w ! p)"
  shows "orderOf (w\<lparr>orderMem := (orderMem w)[p := x], orders := (orders w)(Order.ID x \<mapsto> p)\<rparr>)
           = (orderOf w)(Order.ID x \<mapsto> x)"
    and "allocated (w\<lparr>orderMem := (orderMem w)[p := x], orders := (orders w)(Order.ID x \<mapsto> p)\<rparr>)"
    and "keyed (w\<lparr>orderMem := (orderMem w)[p := x], orders := (orders w)(Order.ID x \<mapsto> p)\<rparr>)"
proof -
  let ?w = "w\<lparr>orderMem := (orderMem w)[p := x], orders := (orders w)(Order.ID x \<mapsto> p)\<rparr>"
  have other: "q \<noteq> p" if "orders w k = Some q" "k \<noteq> Order.ID x" for k q
    using that assms(2,4) by (auto simp: keyed_def)
  show "orderOf ?w = (orderOf w)(Order.ID x \<mapsto> x)"
  proof
    fix k show "orderOf ?w k = ((orderOf w)(Order.ID x \<mapsto> x)) k"
      using assms(3) other [of k] by (cases "orders w k") (auto simp: orderOf_def)
  qed
  show "allocated ?w"
    using assms(1,3) by (simp add: allocated_def)
  show "keyed ?w"
    using assms(2,3) other by (auto simp: keyed_def nth_list_update)
qed


lemma upsert_effect:
  assumes "allocated w" and "keyed w" and "p < length (driverMem w)"
    and "d = driverMem w ! p"
    and "st = (if Driver.Status d = [] then DriverAvailable else Driver.Status d)"
    and "x = d\<lparr>Driver.Status := st, Driver.UpdatedAt := now\<rparr>"
  shows "DriverUseCase_CreateOrUpdateDriver w p now = (w, Some ErrMissingRequiredField)
       \<or> DriverUseCase_CreateOrUpdateDriver w p now = (w, Some ErrInvalidStatusUpdate)
       \<or> (snd (DriverUseCase_CreateOrUpdateDriver w p now) = None
          \<and> Driver.ID d \<noteq> [] \<and> Name d \<noteq> [] \<and> IsValidDriverStatus st
          \<and> driverOf (fst (DriverUseCase_CreateOrUpdateDriver w p now)) = (driverOf w)(Driver.ID d \<mapsto> x)
          \<and> orderOf (fst (DriverUseCase_CreateOrUpdateDriver w p now)) = orderOf w
          \<and> allocated (fst (DriverUseCase_CreateOrUpdateDriver w p now))
          \<and> keyed (fst (DriverUseCase_CreateOrUpdateDriver w p now)))"
proof (cases "Driver.ID d = [] \<or> Name d = [] \<or> (Driver.Status d \<noteq> [] \<and> \<not> IsValidDriverStatus (Driver.Status d))")
  case True
  with assms(4) show ?thesis
    by (auto simp: DriverUseCase_CreateOrUpdateDriver_def Let_def)
next
  case False
  let ?w = "w\<lparr>driverMem := (driverMem w)[p := x], drivers := (drivers w)(Driver.ID x \<mapsto> p)\<rparr>"
  have r: "DriverUseCase_CreateOrUpdateDriver w p now = (?w, None)"
    using False assms(3,4,5,6)
    by (auto simp: DriverUseCase_CreateOrUpdateDriver_def CreateOrUpdateDriver_def Let_def)
  have idx: "Driver.ID x = Driver.ID (driverMem w ! p)" "Driver.ID x = Driver.ID d"
    using assms(4,6) by simp_all
  have v: "IsValidDriverStatus st"
    using False assms(5) by (auto simp: IsValidDriverStatus_def)
  have o: "orderOf ?w = orderOf w"
    by (rule ext) (simp add: orderOf_def)
  from driverOf_insert [OF assms(1,2,3) idx(1)] False v o idx(2) show ?thesis
    by (simp add: r)
qed

lemma create_effect:
  assumes "allocated w" and "keyed w" and "p < length (orderMem w)"
    and "r = orderMem w ! p"
    and "x = r\<lparr>Order.Status := OrderPending, CreatedAt := now, Order.UpdatedAt := now, DriverID := []\<rparr>"
  shows "OrderUseCase_CreateOrder w p now = (w, Some ErrMissingRequiredField)
       \<or> (snd (OrderUseCase_CreateOrder w p now) = None
          \<and> Order.ID r \<noteq> [] \<and> Customer r \<noteq> []
          \<and> orderOf (fst (OrderUseCase_CreateOrder w p now)) = (orderOf w)(Order.ID r \<mapsto> x)
          \<and> driverOf (fst (OrderUseCase_CreateOrder w p now)) = driverOf w
          \<and> allocated (fst (OrderUseCase_CreateOrder w p now))
          \<and> keyed (fst (OrderUseCase_CreateOrder w p now)))"
proof (cases "Order.ID r = [] \<or> Customer r = []")
  case True
  with assms(4) show ?thesis
    by (auto simp: OrderUseCase_CreateOrder_def Let_def)
next
  case False
  let ?w = "w\<lparr>orderMem := (orderMem w)[p := x], orders := (orders w)(Order.ID x \<mapsto> p)\<rparr>"
  have res: "OrderUseCase_CreateOrder w p now = (?w, None)"
    using False assms(3,4,5)
    by (auto simp: OrderUseCase_CreateOrder_def CreateOrder_def Let_def)
  have idx: "Order.ID x = Order.ID (orderMem w ! p)" "Order.ID x = Order.ID r"
    using assms(4,5) by simp_all
  have o: "driverOf ?w = driverOf w"
    by (rule ext) (simp add: driverOf_def)
  from orderOf_insert [OF assms(1,2,3) idx(1)] False o idx(2) show ?thesis
    by (simp add: res)
qed

lemma set_driver_effect:
  assumes "allocated w" and "keyed w"
  shows "(snd (UpdateDriverStatus w k st now) \<noteq> None \<and> fst (UpdateDriverStatus w k st now) = w)
       \<or> (\<exists>d. driverOf w k = Some d \<and> IsValidDriverStatus st
             \<and> snd (UpdateDriverStatus w k st now) = None
             \<and> driverOf (fst (UpdateDriverStatus w k st now))
                 = (driverOf w)(k \<mapsto> d\<lparr>Driver.Status := st, Driver.UpdatedAt := now\<rparr>)
             \<and> orderOf (fst (UpdateDriverStatus w k st now)) = orderOf w
             \<and> allocated (fst (UpdateDriverStatus w k st now))
             \<and> keyed (fst (UpdateDriverStatus w k st now)))"
proof (cases "IsValidDriverStatus st \<and> drivers w k \<noteq> None")
  case False
  then show ?thesis
    by (auto simp: UpdateDriverStatus_def)
next
  case True
  then obtain p where p: "drivers w k = Some p" by auto
  let ?x = "(driverMem w ! p)\<lparr>Driver.Status := st, Driver.UpdatedAt := now\<rparr>"
  have r: "UpdateDriverStatus w k st now = (w\<lparr>driverMem := (driverMem w)[p := ?x]\<rparr>, None)"
    using True p by (simp add: UpdateDriverStatus_def)
  have idx: "Driver.ID ?x = k"
    using p assms(2) by (simp add: keyed_def)
  from driverOf_update [OF assms p, of ?x] wf_driver_update [OF assms p idx] True p
  show ?thesis
    by (simp add: r driverOf_def)
qed

lemma set_order_effect:
  assumes "allocated w" and "keyed w"
  shows "(snd (UpdateOrderStatus w k st now) \<noteq> None \<and> fst (UpdateOrderStatus w k st now) = w)
       \<or> (\<exists>r. orderOf w k = Some r \<and> IsValidOrderStatus st
             \<and> CanTransitionOrderStatus (Order.Status r) st
             \<and> snd (UpdateOrderStatus w k st now) = None
             \<and> orderOf (fst (UpdateOrderStatus w k st now))
                 = (orderOf w)(k \<mapsto> r\<lparr>Order.Status := st, Order.UpdatedAt := now\<rparr>)
             \<and> driverOf (fst (UpdateOrderStatus w k st now)) = driverOf w
             \<and> allocated (fst (UpdateOrderStatus w k st now))
             \<and> keyed (fst (UpdateOrderStatus w k st now)))"
proof (cases "IsValidOrderStatus st \<and> (\<exists>p. orders w k = Some p \<and> CanTransitionOrderStatus (Order.Status (orderMem w ! p)) st)")
  case False
  then show ?thesis
    by (auto simp: UpdateOrderStatus_def split: option.splits)
next
  case True
  then obtain p where p: "orders w k = Some p"
    "CanTransitionOrderStatus (Order.Status (orderMem w ! p)) st" by auto
  let ?x = "(orderMem w ! p)\<lparr>Order.Status := st, Order.UpdatedAt := now\<rparr>"
  have r: "UpdateOrderStatus w k st now = (w\<lparr>orderMem := (orderMem w)[p := ?x]\<rparr>, None)"
    using True p by (simp add: UpdateOrderStatus_def)
  have idx: "Order.ID ?x = k"
    using p assms(2) by (simp add: keyed_def)
  from orderOf_update [OF assms p(1), of ?x] wf_order_update [OF assms p(1) idx] True p
  show ?thesis
    by (simp add: r orderOf_def)
qed

lemma assign_effect:
  assumes "allocated w" and "keyed w"
  shows "(snd (AssignOrderToDriver w a d t1 t2) \<noteq> None \<and> fst (AssignOrderToDriver w a d t1 t2) = w)
       \<or> (\<exists>ord drv. orderOf w a = Some ord \<and> Order.Status ord = OrderPending
             \<and> driverOf w d = Some drv \<and> Driver.Status drv = DriverAvailable
             \<and> snd (AssignOrderToDriver w a d t1 t2) = None
             \<and> orderOf (fst (AssignOrderToDriver w a d t1 t2))
                 = (orderOf w)(a \<mapsto> ord\<lparr>Order.Status := OrderAssigned, DriverID := d,
                                          Order.UpdatedAt := t1\<rparr>)
             \<and> driverOf (fst (AssignOrderToDriver w a d t1 t2))
                 = (driverOf w)(d \<mapsto> drv\<lparr>Driver.Status := DriverBusy, Driver.UpdatedAt := t2\<rparr>)
             \<and> allocated (fst (AssignOrderToDriver w a d t1 t2))
             \<and> keyed (fst (AssignOrderToDriver w a d t1 t2)))"
proof (cases "snd (AssignOrderToDriver w a d t1 t2)")
  case (Some e)
  with Assign_fail_same [of w a d t1 t2] show ?thesis by simp
next
  case None
  then obtain ord drv where c: "orderOf w a = Some ord" "Order.Status ord = OrderPending"
      "driverOf w d = Some drv" "Driver.Status drv = DriverAvailable"
    by (auto simp: AssignOrderToDriver_def orderOf_def driverOf_def split: option.splits if_splits)
  from Assign_success [OF assms c, of t1 t2] c show ?thesis by simp
qed


lemma copy_drivers_prefix: "prefix mem (fst (copy_drivers keep ps mem out))"
proof (induction ps arbitrary: mem out)
  case Nil
  show ?case by simp
next
  case (Cons p ps)
  from Cons [of "mem @ [mem ! p]" "out @ [length mem]"] Cons [of mem out]
  show ?case by (auto dest: append_prefixD)
qed

lemma copy_orders_prefix: "prefix mem (fst (copy_orders keep ps mem out))"
proof (induction ps arbitrary: mem out)
  case Nil
  show ?case by simp
next
  case (Cons p ps)
  from Cons [of "mem @ [mem ! p]" "out @ [length mem]"] Cons [of mem out]
  show ?case by (auto dest: append_prefixD)
qed

lemma snapshot_drivers_prefix: "prefix mem (fst (snapshot_drivers m ks mem snap))"
proof (induction ks arbitrary: mem snap)
  case Nil
  show ?case by simp
next
  case (Cons k ks)
  show ?case
  proof (cases "m k")
    case None
    with Cons [of mem snap] show ?thesis by simp
  next
    case (Some p)
    have "prefix (mem @ [mem ! p])
            (fst (snapshot_drivers m ks (mem @ [mem ! p]) (snap(k \<mapsto> length mem))))"
      by (rule Cons)
    then have "prefix mem (fst (snapshot_drivers m ks (mem @ [mem ! p]) (snap(k \<mapsto> length mem))))"
      by (rule append_prefixD)
    with Some show ?thesis by simp
  qed
qed

lemma snapshot_orders_prefix: "prefix mem (fst (snapshot_orders m ks mem snap))"
proof (induction ks arbitrary: mem snap)
  case Nil
  show ?case by simp
next
  case (Cons k ks)
  show ?case
  proof (cases "m k")
    case None
    with Cons [of mem snap] show ?thesis by simp
  next
    case (Some p)
    have "prefix (mem @ [mem ! p])
            (fst (snapshot_orders m ks (mem @ [mem ! p]) (snap(k \<mapsto> length mem))))"
      by (rule Cons)
    then have "prefix mem (fst (snapshot_orders m ks (mem @ [mem ! p]) (snap(k \<mapsto> length mem))))"
      by (rule append_prefixD)
    with Some show ?thesis by simp
  qed
qed

lemma GetSnapshot_grown: "grown w (fst (GetSnapshot w dks oks now))"
  using snapshot_drivers_prefix [of "driverMem w" "drivers w" dks Map.empty]
    snapshot_orders_prefix [of "orderMem w" "orders w" oks Map.empty]
  by (simp add: GetSnapshot_def grown_def case_prod_beta)

lemma reads_grown:
  "grown w (fst (GetDriver w k))" "grown w (fst (GetOrder w k))"
  "grown w (fst (GetAllDrivers w ks))" "grown w (fst (GetAllOrders w ks))"
  "grown w (fst (GetPendingOrders w ks))" "grown w (fst (GetAvailableDrivers w ks))"
proof -
  show "grown w (fst (GetDriver w k))"
    by (simp add: GetDriver_def grown_def split: option.splits)
  show "grown w (fst (GetOrder w k))"
    by (simp add: GetOrder_def grown_def split: option.splits)
  show "grown w (fst (GetAllDrivers w ks))"
    using copy_drivers_prefix [of "driverMem w" "\<lambda>d. True" "range_values (drivers w) ks" "[]"]
    by (simp add: GetAllDrivers_def grown_def case_prod_beta)
  show "grown w (fst (GetAllOrders w ks))"
    using copy_orders_prefix [of "orderMem w" "\<lambda>d. True" "range_values (orders w) ks" "[]"]
    by (simp add: GetAllOrders_def grown_def case_prod_beta)
  show "grown w (fst (GetPendingOrders w ks))"
    using copy_orders_prefix [of "orderMem w" "\<lambda>order. Order.Status order = OrderPending"
        "range_values (orders w) ks" "[]"]
    by (simp add: GetPendingOrders_def grown_def case_prod_beta)
  show "grown w (fst (GetAvailableDrivers w ks))"
    using copy_drivers_prefix [of "driverMem w" "\<lambda>driver. Driver.Status driver = DriverAvailable"
        "range_values (drivers w) ks" "[]"]
    by (simp add: GetAvailableDrivers_def grown_def case_prod_beta)
qed

text \<open>
  What one operation does to the records the store holds: nothing, or one of five changes
  of a single record (two records for an assignment).
\<close>

lemma exec_view:
  assumes "allocated w" and "keyed w"
  shows "allocated (exec w op) \<and> keyed (exec w op) \<and>
    ((driverOf (exec w op) = driverOf w \<and> orderOf (exec w op) = orderOf w)
   \<or> (\<exists>p now d st. op = Op_UpsertDriver p now \<and> p < length (driverMem w) \<and> d = driverMem w ! p
         \<and> st = (if Driver.Status d = [] then DriverAvailable else Driver.Status d)
         \<and> Driver.ID d \<noteq> [] \<and> IsValidDriverStatus st
         \<and> driverOf (exec w op)
             = (driverOf w)(Driver.ID d \<mapsto> d\<lparr>Driver.Status := st, Driver.UpdatedAt := now\<rparr>)
         \<and> orderOf (exec w op) = orderOf w)
   \<or> (\<exists>k st now d. op = Op_SetDriverStatus k st now \<and> driverOf w k = Some d
         \<and> IsValidDriverStatus st
         \<and> driverOf (exec w op) = (driverOf w)(k \<mapsto> d\<lparr>Driver.Status := st, Driver.UpdatedAt := now\<rparr>)
         \<and> orderOf (exec w op) = orderOf w)
   \<or> (\<exists>p now r. op = Op_CreateOrder p now \<and> p < length (orderMem w) \<and> r = orderMem w ! p
         \<and> Order.ID r \<noteq> []
         \<and> orderOf (exec w op)
             = (orderOf w)(Order.ID r \<mapsto> r\<lparr>Order.Status := OrderPending, CreatedAt := now,
                                              Order.UpdatedAt := now, DriverID := []\<rparr>)
         \<and> driverOf (exec w op) = driverOf w)
   \<or> (\<exists>k st now r. op = Op_SetOrderStatus k st now \<and> orderOf w k = Some r
         \<and> IsValidOrderStatus st \<and> CanTransitionOrderStatus (Order.Status r) st
         \<and> orderOf (exec w op) = (orderOf w)(k \<mapsto> r\<lparr>Order.Status := st, Order.UpdatedAt := now\<rparr>)
         \<and> driverOf (exec w op) = driverOf w)
   \<or> (\<exists>a d t1 t2 ord drv. op = Op_AssignOrderToDriver a d t1 t2
         \<and> orderOf w a = Some ord \<and> Order.Status ord = OrderPending
         \<and> driverOf w d = Some drv \<and> Driver.Status drv = DriverAvailable
         \<and> orderOf (exec w op)
             = (orderOf w)(a \<mapsto> ord\<lparr>Order.Status := OrderAssigned, DriverID := d,
                                      Order.UpdatedAt := t1\<rparr>)
         \<and> driverOf (exec w op)
             = (driverOf w)(d \<mapsto> drv\<lparr>Driver.Status := DriverBusy, Driver.UpdatedAt := t2\<rparr>)))"
proof -
  have same: ?thesis if "grown w (exec w op)"
    using grown_views [OF assms(1) that] assms(2) by simp
  show ?thesis
  proof (cases op)
    case (Op_NewDriver d)
    then show ?thesis by (intro same) (simp add: grown_def)
  next
    case (Op_NewOrder r)
    then show ?thesis by (intro same) (simp add: grown_def)
  next
    case (Op_UpsertDriver p now)
    show ?thesis
    proof (cases "p < length (driverMem w)")
      case False
      with Op_UpsertDriver show ?thesis by (intro same) (simp add: grown_refl)
    next
      case True
      from upsert_effect [OF assms True refl refl refl, of now] True Op_UpsertDriver assms
      show ?thesis by auto
    qed
  next
    case (Op_GetDriver k)
    then show ?thesis by (intro same) (simp add: reads_grown)
  next
    case (Op_ListDrivers ks)
    then show ?thesis by (intro same) (simp add: reads_grown)
  next
    case (Op_SetDriverStatus k st now)
    from set_driver_effect [OF assms, of k st now] Op_SetDriverStatus assms
    show ?thesis by auto
  next
    case (Op_ListAvailableDrivers ks)
    then show ?thesis by (intro same) (simp add: reads_grown)
  next
    case (Op_CreateOrder p now)
    show ?thesis
    proof (cases "p < length (orderMem w)")
      case False
      with Op_CreateOrder show ?thesis by (intro same) (simp add: grown_refl)
    next
      case True
      from create_effect [OF assms True refl refl, of now] True Op_CreateOrder assms
      show ?thesis by auto
    qed
  next
    case (Op_GetOrder k)
    then show ?thesis by (intro same) (simp add: reads_grown)
  next
    case (Op_ListOrders ks)
    then show ?thesis by (intro same) (simp add: reads_grown)
  next
    case (Op_ListPendingOrders ks)
    then show ?thesis by (intro same) (simp add: reads_grown)
  next
    case (Op_SetOrderStatus k st now)
    from set_order_effect [OF assms, of k st now] Op_SetOrderStatus assms
    show ?thesis by auto
  next
    case (Op_AssignOrderToDriver a d t1 t2)
    from assign_effect [OF assms, of a d t1 t2] Op_AssignOrderToDriver assms
    show ?thesis by auto
  next
    case (Op_Snapshot dks oks now)
    then show ?thesis by (intro same) (simp add: GetSnapshot_grown)
  qed
qed


lemma order_status_distinct [simp]:
  "OrderPending \<noteq> OrderAssigned" "OrderPending \<noteq> OrderPickedUp" "OrderPending \<noteq> OrderDelivered"
  "OrderPending \<noteq> OrderCanceled" "OrderAssigned \<noteq> OrderPending" "OrderAssigned \<noteq> OrderPickedUp"
  "OrderAssigned \<noteq> OrderDelivered" "OrderAssigned \<noteq> OrderCanceled"
  "OrderPickedUp \<noteq> OrderPending" "OrderPickedUp \<noteq> OrderAssigned"
  "OrderPickedUp \<noteq> OrderDelivered" "OrderPickedUp \<noteq> OrderCanceled"
  "OrderDelivered \<noteq> OrderPending" "OrderDelivered \<noteq> OrderAssigned"
  "OrderDelivered \<noteq> OrderPickedUp" "OrderDelivered \<noteq> OrderCanceled"
  "OrderCanceled \<noteq> OrderPending" "OrderCanceled \<noteq> OrderAssigned"
  "OrderCanceled \<noteq> OrderPickedUp" "OrderCanceled \<noteq> OrderDelivered"
  by (simp_all add: order_status_defs)

lemma driver_status_distinct [simp]:
  "DriverAvailable \<noteq> DriverBusy" "DriverAvailable \<noteq> DriverOffline"
  "DriverBusy \<noteq> DriverAvailable" "DriverBusy \<noteq> DriverOffline"
  "DriverOffline \<noteq> DriverAvailable" "DriverOffline \<noteq> DriverBusy"
  by (simp_all add: driver_status_defs)

lemma no_transition_to_pending: "\<not> CanTransitionOrderStatus s OrderPending"
  by (simp add: CanTransitionOrderStatus_edges transition_edges_def OrderPending_def)

lemma transition_to_assigned: "CanTransitionOrderStatus s OrderAssigned \<Longrightarrow> s = OrderPending"
  by (auto simp: CanTransitionOrderStatus_edges transition_edges_def order_status_defs)

lemma IsValidOrderStatus_simps [simp]:
  "IsValidOrderStatus OrderPending" "IsValidOrderStatus OrderAssigned"
  by (simp_all add: IsValidOrderStatus_def)

lemma store_inv_empty: "store_inv NewStateManager"
  by (simp add: store_inv_def NewStateManager_def allocated_def keyed_def driverOf_def orderOf_def)

lemma exec_store_inv:
  assumes "store_inv w"
  shows "store_inv (exec w op)"
proof -
  from assms have a: "allocated w" and k: "keyed w" and e: "driverOf w [] = None"
    and o: "\<And>k r. orderOf w k = Some r \<Longrightarrow>
         IsValidOrderStatus (Order.Status r) \<and>
         (Order.Status r = OrderPending \<longrightarrow> DriverID r = []) \<and>
         (DriverID r \<noteq> [] \<longrightarrow> driverOf w (DriverID r) \<noteq> None)"
    by (auto simp: store_inv_def)
  from exec_view [OF a k, of op]
  have wf: "allocated (exec w op)" "keyed (exec w op)" by simp_all
  from exec_view [OF a k, of op]
  have "driverOf (exec w op) [] = None \<and>
      (\<forall>k r. orderOf (exec w op) k = Some r \<longrightarrow>
         IsValidOrderStatus (Order.Status r) \<and>
         (Order.Status r = OrderPending \<longrightarrow> DriverID r = []) \<and>
         (DriverID r \<noteq> [] \<longrightarrow> driverOf (exec w op) (DriverID r) \<noteq> None))"
  proof (elim conjE disjE exE)
    assume "driverOf (exec w op) = driverOf w" "orderOf (exec w op) = orderOf w"
    with e o show ?thesis by simp
  next
    fix p now d st
    assume "driverOf (exec w op)
             = (driverOf w)(Driver.ID d \<mapsto> d\<lparr>Driver.Status := st, Driver.UpdatedAt := now\<rparr>)"
      "orderOf (exec w op) = orderOf w" "Driver.ID d \<noteq> []"
    with e o show ?thesis by auto
  next
    fix k st now d
    assume "driverOf (exec w op) = (driverOf w)(k \<mapsto> d\<lparr>Driver.Status := st, Driver.UpdatedAt := now\<rparr>)"
      "orderOf (exec w op) = orderOf w" "driverOf w k = Some d"
    with e o show ?thesis by auto
  next
    fix p now r
    assume "orderOf (exec w op)
             = (orderOf w)(Order.ID r \<mapsto> r\<lparr>Order.Status := OrderPending, CreatedAt := now,
                                              Order.UpdatedAt := now, DriverID := []\<rparr>)"
      "driverOf (exec w op) = driverOf w"
    with e o show ?thesis by auto
  next
    fix k st now r
    assume h: "orderOf (exec w op) = (orderOf w)(k \<mapsto> r\<lparr>Order.Status := st, Order.UpdatedAt := now\<rparr>)"
      "driverOf (exec w op) = driverOf w" "orderOf w k = Some r" "IsValidOrderStatus st"
      "CanTransitionOrderStatus (Order.Status r) st"
    from h(5) no_transition_to_pending [of "Order.Status r"] have "st \<noteq> OrderPending" by auto
    with h e o [of k r] o show ?thesis by auto
  next
    fix a d t1 t2 ord drv
    assume h: "orderOf (exec w op)
             = (orderOf w)(a \<mapsto> ord\<lparr>Order.Status := OrderAssigned, DriverID := d,
                                      Order.UpdatedAt := t1\<rparr>)"
      "driverOf (exec w op)
             = (driverOf w)(d \<mapsto> drv\<lparr>Driver.Status := DriverBusy, Driver.UpdatedAt := t2\<rparr>)"
      "driverOf w d = Some drv"
    with e have "d \<noteq> []" by auto
    with h e o show ?thesis by auto
  qed
  with wf show ?thesis by (simp add: store_inv_def)
qed

lemma foldl_store_inv: "store_inv w \<Longrightarrow> store_inv (foldl exec w ops)"
  by (induction ops arbitrary: w) (simp_all add: exec_store_inv)

lemma run_store_inv: "store_inv (run ops)"
  by (simp add: run_def foldl_store_inv store_inv_empty)


lemmas eval_defs =
  run_def DriverUseCase_CreateOrUpdateDriver_def CreateOrUpdateDriver_def
  OrderUseCase_CreateOrder_def CreateOrder_def UpdateOrderStatus_def UpdateDriverStatus_def
  AssignOrderToDriver_def IsValidDriverStatus_def IsValidOrderStatus_def
  CanTransitionOrderStatus_def validTransitions_def NewStateManager_def
  order_status_defs driver_status_defs driver1_def order1_def order2_def origin_def

lemma run_ops_ready:
  "run ops_ready = \<lparr>drivers = [''d1'' \<mapsto> 0], orders = [''o1'' \<mapsto> 0],
       driverMem = [driver1], orderMem = [order1]\<rparr>"
  by (simp add: ops_ready_def eval_defs)

lemma run_ops_assigned:
  "run ops_assigned = \<lparr>drivers = [''d1'' \<mapsto> 0], orders = [''o1'' \<mapsto> 0],
       driverMem = [driver1\<lparr>Driver.Status := ''busy'', Driver.UpdatedAt := 201\<rparr>],
       orderMem = [order1\<lparr>Order.Status := ''assigned'', DriverID := ''d1'', Order.UpdatedAt := 200\<rparr>]\<rparr>"
  by (simp add: ops_assigned_def ops_ready_def eval_defs)


lemma run_ops_busy:
  "run ops_busy = \<lparr>drivers = [''d1'' \<mapsto> 0], orders = Map.empty,
       driverMem = [driver1\<lparr>Driver.Status := ''busy''\<rparr>], orderMem = []\<rparr>"
  by (simp add: ops_busy_def eval_defs)

lemma run_ops_released:
  "run ops_released = \<lparr>drivers = [''d1'' \<mapsto> 0], orders = [''o1'' \<mapsto> 0],
       driverMem = [driver1\<lparr>Driver.UpdatedAt := 300\<rparr>],
       orderMem = [order1\<lparr>Order.Status := ''assigned'', DriverID := ''d1'', Order.UpdatedAt := 200\<rparr>]\<rparr>"
  by (simp add: ops_released_def ops_assigned_def ops_ready_def eval_defs)







section \<open>Busy drivers and snapshots\<close>


text \<open>
  Claim C4 as stated fails: a driver upserted with status \<open>busy\<close> into the empty store is
  busy, and the store holds no order at all.
\<close>

theorem busy_without_order_counterexample:
  "\<not> busy_drivers_are_assignees (run ops_busy)"
proof
  assume "busy_drivers_are_assignees (run ops_busy)"
  then have "driverOf (run ops_busy) ''d1'' = Some (driver1\<lparr>Driver.Status := ''busy''\<rparr>)
      \<and> Driver.Status (driver1\<lparr>Driver.Status := ''busy''\<rparr>) = DriverBusy
      \<longrightarrow> (\<exists>oid r. orderOf (run ops_busy) oid = Some r \<and> DriverID r = ''d1'' \<and>
             Order.Status r \<in> {OrderPending, OrderAssigned, OrderPickedUp})"
    unfolding busy_drivers_are_assignees_def by blast
  then show False
    by (simp add: run_ops_busy driverOf_def orderOf_def DriverBusy_def)
qed

text \<open>
  Claim C4, amended. In every state of a run, one operation makes a driver busy that was
  not busy (or not there) only in three ways: an \<^verbatim>\<open>AssignOrderToDriver\<close> naming that
  driver, after which the order just assigned has status \<open>assigned\<close> and refers to the
  driver; an upsert of a record with that ID and status \<open>busy\<close>; an
  \<^verbatim>\<open>UpdateDriverStatus\<close> of that driver to \<open>busy\<close>. A change of an order's status and
  the creation of an order leave every driver as it was, so a driver stays busy when its
  order becomes terminal or is overwritten.
\<close>

theorem busy_driver_origin:
  "(\<forall>op k d'. driverOf (exec (run ops) op) k = Some d' \<and> Driver.Status d' = DriverBusy
        \<and> map_option Driver.Status (driverOf (run ops) k) \<noteq> Some DriverBusy \<longrightarrow>
       (\<exists>oid t1 t2 r. op = Op_AssignOrderToDriver oid k t1 t2
            \<and> orderOf (exec (run ops) op) oid = Some r
            \<and> Order.Status r = OrderAssigned \<and> DriverID r = k)
     \<or> (\<exists>p now. op = Op_UpsertDriver p now \<and> p < length (driverMem (run ops))
            \<and> Driver.ID (driverMem (run ops) ! p) = k
            \<and> Driver.Status (driverMem (run ops) ! p) = DriverBusy)
     \<or> (\<exists>now. op = Op_SetDriverStatus k DriverBusy now))
 \<and> (\<forall>k st now. driverOf (exec (run ops) (Op_SetOrderStatus k st now)) = driverOf (run ops))
 \<and> (\<forall>p now. driverOf (exec (run ops) (Op_CreateOrder p now)) = driverOf (run ops))"
proof -
  let ?w = "run ops"
  have inv: "store_inv ?w" by (rule run_store_inv)
  then have a: "allocated ?w" and k: "keyed ?w"
    by (auto simp: store_inv_def)
  have p1: "(\<exists>oid t1 t2 r. op = Op_AssignOrderToDriver oid k t1 t2
            \<and> orderOf (exec ?w op) oid = Some r
            \<and> Order.Status r = OrderAssigned \<and> DriverID r = k)
     \<or> (\<exists>p now. op = Op_UpsertDriver p now \<and> p < length (driverMem ?w)
            \<and> Driver.ID (driverMem ?w ! p) = k
            \<and> Driver.Status (driverMem ?w ! p) = DriverBusy)
     \<or> (\<exists>now. op = Op_SetDriverStatus k DriverBusy now)"
    if h: "driverOf (exec ?w op) k = Some d' \<and> Driver.Status d' = DriverBusy
        \<and> map_option Driver.Status (driverOf ?w k) \<noteq> Some DriverBusy"
    for op k d'
    using exec_view [OF a k, of op]
  proof (elim conjE disjE exE)
    assume "driverOf (exec ?w op) = driverOf ?w"
    with h show ?thesis by auto
  next
    fix p now d st
    assume c: "op = Op_UpsertDriver p now" "p < length (driverMem ?w)" "d = driverMem ?w ! p"
      "st = (if Driver.Status d = [] then DriverAvailable else Driver.Status d)"
      "driverOf (exec ?w op)
             = (driverOf ?w)(Driver.ID d \<mapsto> d\<lparr>Driver.Status := st, Driver.UpdatedAt := now\<rparr>)"
    show ?thesis
    proof (cases "k = Driver.ID d")
      case True
      with h c(5) have "st = DriverBusy" by auto
      with c(4) have "Driver.Status d = DriverBusy" by (auto split: if_splits)
      with c(1,2,3) True show ?thesis by blast
    next
      case False
      with h c(5) show ?thesis by auto
    qed
  next
    fix ka st now d
    assume c: "op = Op_SetDriverStatus ka st now"
      "driverOf (exec ?w op) = (driverOf ?w)(ka \<mapsto> d\<lparr>Driver.Status := st, Driver.UpdatedAt := now\<rparr>)"
    show ?thesis
    proof (cases "k = ka")
      case True
      with h c(2) have "st = DriverBusy" by auto
      with c(1) True show ?thesis by blast
    next
      case False
      with h c(2) show ?thesis by auto
    qed
  next
    fix p now r
    assume "driverOf (exec ?w op) = driverOf ?w"
    with h show ?thesis by auto
  next
    fix ka st now r
    assume "driverOf (exec ?w op) = driverOf ?w"
    with h show ?thesis by auto
  next
    fix aa d t1 t2 ord drv
    assume c: "op = Op_AssignOrderToDriver aa d t1 t2"
      "orderOf (exec ?w op)
             = (orderOf ?w)(aa \<mapsto> ord\<lparr>Order.Status := OrderAssigned, DriverID := d,
                                      Order.UpdatedAt := t1\<rparr>)"
      "driverOf (exec ?w op)
             = (driverOf ?w)(d \<mapsto> drv\<lparr>Driver.Status := DriverBusy, Driver.UpdatedAt := t2\<rparr>)"
    show ?thesis
    proof (cases "k = d")
      case True
      from c(2) have "orderOf (exec ?w op) aa
          = Some (ord\<lparr>Order.Status := OrderAssigned, DriverID := d, Order.UpdatedAt := t1\<rparr>)"
        by simp
      with c(1) True show ?thesis by auto
    next
      case False
      with h c(3) show ?thesis by auto
    qed
  qed
  have p2: "driverOf (exec ?w (Op_SetOrderStatus k st now)) = driverOf ?w" for k st now
    using exec_view [OF a k, of "Op_SetOrderStatus k st now"] by auto
  have p3: "driverOf (exec ?w (Op_CreateOrder p now)) = driverOf ?w" for p now
    using exec_view [OF a k, of "Op_CreateOrder p now"] by auto
  show ?thesis
  proof (intro conjI allI impI)
    fix op k d'
    assume "driverOf (exec ?w op) k = Some d' \<and> Driver.Status d' = DriverBusy
        \<and> map_option Driver.Status (driverOf ?w k) \<noteq> Some DriverBusy"
    then show "(\<exists>oid t1 t2 r. op = Op_AssignOrderToDriver oid k t1 t2
            \<and> orderOf (exec ?w op) oid = Some r
            \<and> Order.Status r = OrderAssigned \<and> DriverID r = k)
     \<or> (\<exists>p now. op = Op_UpsertDriver p now \<and> p < length (driverMem ?w)
            \<and> Driver.ID (driverMem ?w ! p) = k
            \<and> Driver.Status (driverMem ?w ! p) = DriverBusy)
     \<or> (\<exists>now. op = Op_SetDriverStatus k DriverBusy now)"
      by (rule p1)
  next
    fix k st now show "driverOf (exec ?w (Op_SetOrderStatus k st now)) = driverOf ?w" by (rule p2)
  next
    fix p now show "driverOf (exec ?w (Op_CreateOrder p now)) = driverOf ?w" by (rule p3)
  qed
qed

theorem busy_driver_origin_witness:
  "driverOf (exec (run ops_ready) (Op_AssignOrderToDriver ''o1'' ''d1'' 200 201)) ''d1''
     = Some (driver1\<lparr>Driver.Status := ''busy'', Driver.UpdatedAt := 201\<rparr>)
   \<and> driverOf (run ops_ready) ''d1'' = Some driver1
   \<and> Driver.Status driver1 = ''available''
   \<and> ((\<exists>oid t1 t2 r. Op_AssignOrderToDriver ''o1'' ''d1'' 200 201 = Op_AssignOrderToDriver oid ''d1'' t1 t2
            \<and> orderOf (exec (run ops_ready) (Op_AssignOrderToDriver ''o1'' ''d1'' 200 201)) oid = Some r
            \<and> Order.Status r = OrderAssigned \<and> DriverID r = ''d1'')
      \<or> (\<exists>p now. Op_AssignOrderToDriver ''o1'' ''d1'' 200 201 = Op_UpsertDriver p now
            \<and> p < length (driverMem (run ops_ready))
            \<and> Driver.ID (driverMem (run ops_ready) ! p) = ''d1''
            \<and> Driver.Status (driverMem (run ops_ready) ! p) = DriverBusy)
      \<or> (\<exists>now. Op_AssignOrderToDriver ''o1'' ''d1'' 200 201 = Op_SetDriverStatus ''d1'' DriverBusy now))
   \<and> driverOf (exec (run ops_assigned) (Op_SetOrderStatus ''o1'' ''canceled'' 300)) ''d1''
     = Some (driver1\<lparr>Driver.Status := ''busy'', Driver.UpdatedAt := 201\<rparr>)"
proof -
  let ?op = "Op_AssignOrderToDriver ''o1'' ''d1'' 200 201"
  let ?d = "driver1\<lparr>Driver.Status := ''busy'', Driver.UpdatedAt := 201\<rparr>"
  have e: "exec (run ops_ready) ?op = run ops_assigned"
    by (simp add: run_def ops_assigned_def)
  have v: "driverOf (run ops_assigned) ''d1'' = Some ?d" "driverOf (run ops_ready) ''d1'' = Some driver1"
    "Driver.Status driver1 = ''available''" "Driver.Status ?d = DriverBusy"
    by (simp_all add: run_ops_assigned run_ops_ready driverOf_def driver1_def DriverBusy_def)
  have h: "driverOf (exec (run ops_ready) ?op) ''d1'' = Some ?d \<and> Driver.Status ?d = DriverBusy
        \<and> map_option Driver.Status (driverOf (run ops_ready) ''d1'') \<noteq> Some DriverBusy"
    unfolding e using v by (simp add: DriverBusy_def)
  note step = busy_driver_origin [of ops_ready, THEN conjunct1, THEN spec, THEN spec, THEN spec,
      THEN mp, OF h]
  have "driverOf (exec (run ops_assigned) (Op_SetOrderStatus ''o1'' ''canceled'' 300))
          = driverOf (run ops_assigned)"
    using busy_driver_origin [of ops_assigned, THEN conjunct2, THEN conjunct1, THEN spec, THEN spec,
        THEN spec, of "''o1''" "''canceled''" 300] .
  with v(1) have c: "driverOf (exec (run ops_assigned) (Op_SetOrderStatus ''o1'' ''canceled'' 300)) ''d1''
      = Some ?d" by simp
  from h v(2,3) step c show ?thesis by (intro conjI) simp_all
qed

lemma prefix_nth: "prefix xs ys \<Longrightarrow> i < length xs \<Longrightarrow> ys ! i = xs ! i"
  by (auto simp: prefix_def nth_append)

lemma snapshot_drivers_entries:
  assumes "\<forall>k p. m k = Some p \<longrightarrow> p < length mem"
    and "\<forall>k q. snap k = Some q \<longrightarrow> q < length mem \<and> (\<exists>p. m k = Some p \<and> mem ! q = mem ! p)"
    and "snapshot_drivers m ks mem snap = (mem', snap')"
  shows "\<forall>k q. snap' k = Some q \<longrightarrow> (\<exists>p. m k = Some p \<and> mem' ! q = mem ! p)"
  using assms
proof (induction ks arbitrary: mem snap)
  case Nil
  then show ?case by auto
next
  case (Cons k ks)
  show ?case
  proof (cases "m k")
    case None
    with Cons.prems Cons.IH [of mem snap] show ?thesis by simp
  next
    case (Some p)
    let ?mem = "mem @ [mem ! p]" and ?snap = "snap(k \<mapsto> length mem)"
    from Some Cons.prems(1) have p: "p < length mem" by simp
    have same: "?mem ! i = mem ! i" if "i < length mem" for i
      using that by (simp add: nth_append)
    have 1: "\<forall>k p. m k = Some p \<longrightarrow> p < length ?mem"
      using Cons.prems(1) by (auto intro: less_SucI)
    have 2: "\<forall>k' q. ?snap k' = Some q \<longrightarrow> q < length ?mem \<and> (\<exists>p. m k' = Some p \<and> ?mem ! q = ?mem ! p)"
    proof (intro allI impI)
      fix k' q assume h: "?snap k' = Some q"
      show "q < length ?mem \<and> (\<exists>p. m k' = Some p \<and> ?mem ! q = ?mem ! p)"
      proof (cases "k' = k")
        case True
        with h Some p show ?thesis by (simp add: nth_append)
      next
        case False
        with h Cons.prems(2) obtain p' where "q < length mem" "m k' = Some p'" "mem ! q = mem ! p'"
          by auto
        moreover with Cons.prems(1) have "p' < length mem" by simp
        ultimately show ?thesis by (simp add: nth_append)
      qed
    qed
    have 3: "snapshot_drivers m ks ?mem ?snap = (mem', snap')"
      using Cons.prems(3) Some by simp
    from Cons.IH [OF 1 2 3]
    have "\<forall>k q. snap' k = Some q \<longrightarrow> (\<exists>p. m k = Some p \<and> mem' ! q = ?mem ! p)" .
    with Cons.prems(1) show ?thesis
      by (metis same)
  qed
qed

lemma snapshot_orders_entries:
  assumes "\<forall>k p. m k = Some p \<longrightarrow> p < length mem"
    and "\<forall>k q. snap k = Some q \<longrightarrow> q < length mem \<and> (\<exists>p. m k = Some p \<and> mem ! q = mem ! p)"
    and "snapshot_orders m ks mem snap = (mem', snap')"
  shows "\<forall>k q. snap' k = Some q \<longrightarrow> (\<exists>p. m k = Some p \<and> mem' ! q = mem ! p)"
  using assms
proof (induction ks arbitrary: mem snap)
  case Nil
  then show ?case by auto
next
  case (Cons k ks)
  show ?case
  proof (cases "m k")
    case None
    with Cons.prems Cons.IH [of mem snap] show ?thesis by simp
  next
    case (Some p)
    let ?mem = "mem @ [mem ! p]" and ?snap = "snap(k \<mapsto> length mem)"
    from Some Cons.prems(1) have p: "p < length mem" by simp
    have same: "?mem ! i = mem ! i" if "i < length mem" for i
      using that by (simp add: nth_append)
    have 1: "\<forall>k p. m k = Some p \<longrightarrow> p < length ?mem"
      using Cons.prems(1) by (auto intro: less_SucI)
    have 2: "\<forall>k' q. ?snap k' = Some q \<longrightarrow> q < length ?mem \<and> (\<exists>p. m k' = Some p \<and> ?mem ! q = ?mem ! p)"
    proof (intro allI impI)
      fix k' q assume h: "?snap k' = Some q"
      show "q < length ?mem \<and> (\<exists>p. m k' = Some p \<and> ?mem ! q = ?mem ! p)"
      proof (cases "k' = k")
        case True
        with h Some p show ?thesis by (simp add: nth_append)
      next
        case False
        with h Cons.prems(2) obtain p' where "q < length mem" "m k' = Some p'" "mem ! q = mem ! p'"
          by auto
        moreover with Cons.prems(1) have "p' < length mem" by simp
        ultimately show ?thesis by (simp add: nth_append)
      qed
    qed
    have 3: "snapshot_orders m ks ?mem ?snap = (mem', snap')"
      using Cons.prems(3) Some by simp
    from Cons.IH [OF 1 2 3]
    have "\<forall>k q. snap' k = Some q \<longrightarrow> (\<exists>p. m k = Some p \<and> mem' ! q = ?mem ! p)" .
    with Cons.prems(1) show ?thesis
      by (metis same)
  qed
qed

lemma GetSnapshot_shows_store:
  assumes "allocated w" and "GetSnapshot w dks oks now = (w', snap)"
  shows "\<forall>k q. Drivers snap k = Some q \<longrightarrow> driverOf w k = Some (driverMem w' ! q)"
    and "\<forall>k q. Orders snap k = Some q \<longrightarrow> orderOf w k = Some (orderMem w' ! q)"
proof -
  obtain dmem dsnap where d: "snapshot_drivers (drivers w) dks (driverMem w) Map.empty = (dmem, dsnap)"
    by (cases "snapshot_drivers (drivers w) dks (driverMem w) Map.empty")
  obtain omem osnap where o: "snapshot_orders (orders w) oks (orderMem w) Map.empty = (omem, osnap)"
    by (cases "snapshot_orders (orders w) oks (orderMem w) Map.empty")
  from assms(2) d o have r: "driverMem w' = dmem" "orderMem w' = omem" "Drivers snap = dsnap"
    "Orders snap = osnap"
    by (auto simp: GetSnapshot_def)
  have ad: "\<forall>k p. drivers w k = Some p \<longrightarrow> p < length (driverMem w)"
    and ao: "\<forall>k p. orders w k = Some p \<longrightarrow> p < length (orderMem w)"
    using assms(1) by (auto simp: allocated_def)
  have ed: "\<forall>k q. dsnap k = Some q \<longrightarrow> (\<exists>p. drivers w k = Some p \<and> dmem ! q = driverMem w ! p)"
    by (rule snapshot_drivers_entries [OF ad _ d]) simp
  show "\<forall>k q. Drivers snap k = Some q \<longrightarrow> driverOf w k = Some (driverMem w' ! q)"
  proof (intro allI impI)
    fix k q assume "Drivers snap k = Some q"
    with ed r obtain p where "drivers w k = Some p" "dmem ! q = driverMem w ! p" by auto
    then show "driverOf w k = Some (driverMem w' ! q)" by (simp add: r driverOf_def)
  qed
  have eo: "\<forall>k q. osnap k = Some q \<longrightarrow> (\<exists>p. orders w k = Some p \<and> omem ! q = orderMem w ! p)"
    by (rule snapshot_orders_entries [OF ao _ o]) simp
  show "\<forall>k q. Orders snap k = Some q \<longrightarrow> orderOf w k = Some (orderMem w' ! q)"
  proof (intro allI impI)
    fix k q assume "Orders snap k = Some q"
    with eo r obtain p where "orders w k = Some p" "omem ! q = orderMem w ! p" by auto
    then show "orderOf w k = Some (orderMem w' ! q)" by (simp add: r orderOf_def)
  qed
qed

lemma view_consistent_snapshot:
  assumes "allocated w" and "view_consistent w" and "GetSnapshot w dks oks now = (w', snap)"
  shows "snapshot_consistent w' snap"
  unfolding snapshot_consistent_def
proof (intro allI impI, elim conjE)
  fix oid po pd
  assume h: "Orders snap oid = Some po" "Order.Status (orderMem w' ! po) = OrderAssigned"
    "Drivers snap (DriverID (orderMem w' ! po)) = Some pd"
  from GetSnapshot_shows_store [OF assms(1,3)] h
  have "orderOf w oid = Some (orderMem w' ! po)"
    "driverOf w (DriverID (orderMem w' ! po)) = Some (driverMem w' ! pd)" by auto
  with assms(2) h(2) show "Driver.Status (driverMem w' ! pd) \<noteq> DriverAvailable"
    unfolding view_consistent_def by blast
qed


lemma view_consistent_empty: "view_consistent NewStateManager"
  by (simp add: view_consistent_def NewStateManager_def orderOf_def)

lemma exec_view_consistent:
  assumes "store_inv w" and "view_consistent w" and "\<not> releases w op"
  shows "view_consistent (exec w op)"
proof -
  from assms(1) have a: "allocated w" and k: "keyed w" and e: "driverOf w [] = None"
    and o: "\<And>k r. orderOf w k = Some r \<Longrightarrow> Order.Status r = OrderPending \<Longrightarrow> DriverID r = []"
    by (auto simp: store_inv_def)
  have c: "Driver.Status d \<noteq> DriverAvailable"
    if "orderOf w oid = Some r" "Order.Status r = OrderAssigned" "driverOf w (DriverID r) = Some d"
    for oid r d
    using assms(2) that unfolding view_consistent_def by blast
  have goal: "Driver.Status d \<noteq> DriverAvailable"
    if h: "orderOf (exec w op) oid = Some r" "Order.Status r = OrderAssigned"
      "driverOf (exec w op) (DriverID r) = Some d"
    for oid r d
    using exec_view [OF a k, of op]
  proof (elim conjE disjE exE)
    assume "driverOf (exec w op) = driverOf w" "orderOf (exec w op) = orderOf w"
    with h c [of oid r d] show ?thesis by simp
  next
    fix p now d0 st
    assume g: "op = Op_UpsertDriver p now" "p < length (driverMem w)" "d0 = driverMem w ! p"
      "st = (if Driver.Status d0 = [] then DriverAvailable else Driver.Status d0)"
      "driverOf (exec w op)
             = (driverOf w)(Driver.ID d0 \<mapsto> d0\<lparr>Driver.Status := st, Driver.UpdatedAt := now\<rparr>)"
      "orderOf (exec w op) = orderOf w"
    from g(6) h have r: "orderOf w oid = Some r" by simp
    show ?thesis
    proof (cases "DriverID r = Driver.ID d0")
      case True
      with r h(2) have "referenced w (Driver.ID d0)"
        unfolding referenced_def by blast
      with assms(3) g(1,2,3) have "Driver.Status d0 \<noteq> DriverAvailable" "Driver.Status d0 \<noteq> []"
        by auto
      with g(4) have "st \<noteq> DriverAvailable" by simp
      with True h(3) g(5) show ?thesis by auto
    next
      case False
      with h(3) g(5) have "driverOf w (DriverID r) = Some d" by simp
      with r h(2) show ?thesis by (rule c)
    qed
  next
    fix ka st now d0
    assume g: "op = Op_SetDriverStatus ka st now"
      "driverOf (exec w op) = (driverOf w)(ka \<mapsto> d0\<lparr>Driver.Status := st, Driver.UpdatedAt := now\<rparr>)"
      "orderOf (exec w op) = orderOf w"
    from g(3) h have r: "orderOf w oid = Some r" by simp
    show ?thesis
    proof (cases "DriverID r = ka")
      case True
      with r h(2) have "referenced w ka"
        unfolding referenced_def by blast
      with assms(3) g(1) have "st \<noteq> DriverAvailable" by auto
      with True h(3) g(2) show ?thesis by auto
    next
      case False
      with h(3) g(2) have "driverOf w (DriverID r) = Some d" by simp
      with r h(2) show ?thesis by (rule c)
    qed
  next
    fix p now r0
    assume g: "orderOf (exec w op)
             = (orderOf w)(Order.ID r0 \<mapsto> r0\<lparr>Order.Status := OrderPending, CreatedAt := now,
                                              Order.UpdatedAt := now, DriverID := []\<rparr>)"
      "driverOf (exec w op) = driverOf w"
    show ?thesis
    proof (cases "oid = Order.ID r0")
      case True
      with h(1,2) g(1) show ?thesis by auto
    next
      case False
      with h g have "orderOf w oid = Some r" "driverOf w (DriverID r) = Some d" by simp_all
      with h(2) show ?thesis by (intro c [of oid r d])
    qed
  next
    fix ka st now r0
    assume g: "orderOf (exec w op) = (orderOf w)(ka \<mapsto> r0\<lparr>Order.Status := st, Order.UpdatedAt := now\<rparr>)"
      "driverOf (exec w op) = driverOf w" "orderOf w ka = Some r0"
      "CanTransitionOrderStatus (Order.Status r0) st"
    show ?thesis
    proof (cases "oid = ka")
      case True
      with h(1,2) g(1) have "st = OrderAssigned" "DriverID r = DriverID r0" by auto
      with g(4) have "Order.Status r0 = OrderPending" by (auto dest: transition_to_assigned)
      with o [OF g(3)] \<open>DriverID r = DriverID r0\<close> have "DriverID r = []" by simp
      with h(3) g(2) e show ?thesis by simp
    next
      case False
      with h g have "orderOf w oid = Some r" "driverOf w (DriverID r) = Some d" by simp_all
      with h(2) show ?thesis by (intro c [of oid r d])
    qed
  next
    fix aa d0 t1 t2 ord drv
    assume g: "orderOf (exec w op)
             = (orderOf w)(aa \<mapsto> ord\<lparr>Order.Status := OrderAssigned, DriverID := d0,
                                      Order.UpdatedAt := t1\<rparr>)"
      "driverOf (exec w op)
             = (driverOf w)(d0 \<mapsto> drv\<lparr>Driver.Status := DriverBusy, Driver.UpdatedAt := t2\<rparr>)"
    show ?thesis
    proof (cases "DriverID r = d0")
      case True
      with h(3) g(2) show ?thesis by auto
    next
      case False
      with h(1) g(1) have "oid \<noteq> aa" by auto
      with False h g have "orderOf w oid = Some r" "driverOf w (DriverID r) = Some d" by simp_all
      with h(2) show ?thesis by (intro c [of oid r d])
    qed
  qed
  then show ?thesis
    unfolding view_consistent_def by blast
qed

lemma foldl_view_consistent:
  "store_inv w \<Longrightarrow> view_consistent w \<Longrightarrow> no_release w ops \<Longrightarrow> view_consistent (foldl exec w ops)"
  by (induction ops arbitrary: w) (simp_all add: exec_store_inv exec_view_consistent)

text \<open>
  Claim C6 as stated fails: after an assignment, \<^verbatim>\<open>UpdateDriverStatus\<close> sets the driver
  back to \<open>available\<close>, and the snapshot shows the order assigned to an available driver.
\<close>

theorem snapshot_assigned_available_counterexample:
  "\<not> snapshot_consistent (fst (GetSnapshot (run ops_released) [''d1''] [''o1''] 400))
       (snd (GetSnapshot (run ops_released) [''d1''] [''o1''] 400))"
proof
  let ?s = "GetSnapshot (run ops_released) [''d1''] [''o1''] 400"
  assume "snapshot_consistent (fst ?s) (snd ?s)"
  then have "Orders (snd ?s) ''o1'' = Some 1 \<and> Order.Status (orderMem (fst ?s) ! 1) = OrderAssigned
      \<and> Drivers (snd ?s) (DriverID (orderMem (fst ?s) ! 1)) = Some 1
      \<longrightarrow> Driver.Status (driverMem (fst ?s) ! 1) \<noteq> DriverAvailable"
    unfolding snapshot_consistent_def by blast
  then show False
    by (simp add: GetSnapshot_def run_ops_released order1_def driver1_def OrderAssigned_def
          DriverAvailable_def)
qed

text \<open>
  Claim C6, amended. Every entry of a snapshot is a copy of the record the store holds
  under that key. After a run in which no upsert and no \<^verbatim>\<open>UpdateDriverStatus\<close> writes
  \<open>available\<close> (or, for an upsert, the empty status that defaults to it) to a driver that
  an assigned order refers to, the snapshot shows no assigned order whose driver is
  available in the same snapshot. Assignments, creations and status changes of orders are
  not restricted: none of them brings such a pair about.
\<close>

theorem snapshot_consistent_without_release:
  assumes "no_release NewStateManager ops"
    and "GetSnapshot (run ops) dks oks now = (w', snap)"
  shows "snapshot_consistent w' snap
       \<and> (\<forall>k q. Drivers snap k = Some q \<longrightarrow> driverOf (run ops) k = Some (driverMem w' ! q))
       \<and> (\<forall>k q. Orders snap k = Some q \<longrightarrow> orderOf (run ops) k = Some (orderMem w' ! q))"
proof -
  have inv: "store_inv (run ops)" by (rule run_store_inv)
  then have a: "allocated (run ops)" by (simp add: store_inv_def)
  have "view_consistent (run ops)"
    unfolding run_def using store_inv_empty view_consistent_empty assms(1)
    by (rule foldl_view_consistent)
  with a have "snapshot_consistent w' snap"
    using assms(2) by (rule view_consistent_snapshot)
  with GetSnapshot_shows_store [OF a assms(2)] show ?thesis by simp
qed


lemma no_release_ops_assigned: "no_release NewStateManager ops_assigned"
  by (simp add: ops_assigned_def ops_ready_def referenced_def orderOf_def NewStateManager_def)

theorem snapshot_consistent_without_release_witness:
  "no_release NewStateManager ops_assigned
   \<and> snapshot_consistent (fst (GetSnapshot (run ops_assigned) [''d1''] [''o1''] 400))
        (snd (GetSnapshot (run ops_assigned) [''d1''] [''o1''] 400))
   \<and> Orders (snd (GetSnapshot (run ops_assigned) [''d1''] [''o1''] 400)) ''o1'' = Some 1
   \<and> Drivers (snd (GetSnapshot (run ops_assigned) [''d1''] [''o1''] 400)) ''d1'' = Some 1
   \<and> orderMem (fst (GetSnapshot (run ops_assigned) [''d1''] [''o1''] 400)) ! 1
       = order1\<lparr>Order.Status := ''assigned'', DriverID := ''d1'', Order.UpdatedAt := 200\<rparr>
   \<and> driverMem (fst (GetSnapshot (run ops_assigned) [''d1''] [''o1''] 400)) ! 1
       = driver1\<lparr>Driver.Status := ''busy'', Driver.UpdatedAt := 201\<rparr>"
proof -
  let ?s = "GetSnapshot (run ops_assigned) [''d1''] [''o1''] 400"
  have v: "Orders (snd ?s) ''o1'' = Some 1" "Drivers (snd ?s) ''d1'' = Some 1"
    "orderMem (fst ?s) ! 1
       = order1\<lparr>Order.Status := ''assigned'', DriverID := ''d1'', Order.UpdatedAt := 200\<rparr>"
    "driverMem (fst ?s) ! 1 = driver1\<lparr>Driver.Status := ''busy'', Driver.UpdatedAt := 201\<rparr>"
    by (simp_all add: GetSnapshot_def run_ops_assigned)
  from snapshot_consistent_without_release [OF no_release_ops_assigned surjective_pairing,
      of "[''d1'']" "[''o1'']" 400]
  have "snapshot_consistent (fst ?s) (snd ?s)" by (rule conjunct1)
  with no_release_ops_assigned v show ?thesis by simp
qed

section \<open>Copies returned by reads and pointers kept by writes\<close>


lemma run_ops_upserted:
  "run ops_upserted = \<lparr>drivers = [''d1'' \<mapsto> 0], orders = Map.empty,
       driverMem = [driver1], orderMem = []\<rparr>"
  by (simp add: ops_upserted_def eval_defs)

text \<open>
  Claim C9 on the code. The reads copy, as the lemmas below show for each of them. The
  writes do not: \<^verbatim>\<open>CreateOrUpdateDriver\<close> and \<^verbatim>\<open>CreateOrder\<close> put the caller's own
  pointer into the map. After an upsert through the pointer \<open>0\<close> the entry of \<open>d1\<close> is
  that pointer; the caller writing the record \<open>mallory\<close> through it (a status no
  validation would accept) changes what \<^verbatim>\<open>GetDriver\<close> returns for \<open>d1\<close>; and after an
  assignment the two objects the callers submitted, still named by the callers' pointers,
  have the status the store gave them.
\<close>

theorem store_keeps_submitted_pointer:
  "drivers (run ops_upserted) ''d1'' = Some 0
 \<and> driverMem (run ops_upserted) ! 0 = driver1
 \<and> snd (GetDriver (write_driver (run ops_upserted) 0 mallory) ''d1'') = Inr 1
 \<and> driverMem (fst (GetDriver (write_driver (run ops_upserted) 0 mallory) ''d1'')) ! 1 = mallory
 \<and> drivers (run ops_ready) ''d1'' = Some 0 \<and> orders (run ops_ready) ''o1'' = Some 0
 \<and> driverMem (run ops_ready) ! 0 = driver1 \<and> orderMem (run ops_ready) ! 0 = order1
 \<and> driverMem (exec (run ops_ready) (Op_AssignOrderToDriver ''o1'' ''d1'' 200 201)) ! 0
      = driver1\<lparr>Driver.Status := ''busy'', Driver.UpdatedAt := 201\<rparr>
 \<and> orderMem (exec (run ops_ready) (Op_AssignOrderToDriver ''o1'' ''d1'' 200 201)) ! 0
      = order1\<lparr>Order.Status := ''assigned'', DriverID := ''d1'', Order.UpdatedAt := 200\<rparr>"
proof -
  have e: "exec (run ops_ready) (Op_AssignOrderToDriver ''o1'' ''d1'' 200 201) = run ops_assigned"
    by (simp add: run_def ops_assigned_def)
  show ?thesis
    unfolding e
    by (simp add: run_ops_upserted run_ops_ready run_ops_assigned write_driver_def GetDriver_def)
qed


lemma GetDriver_copy:
  assumes "allocated w" and "GetDriver w k = (w', Inr q)"
  shows "q = length (driverMem w)" and "grown w w'" and "driverOf w k = Some (driverMem w' ! q)"
    and "q < length (driverMem w')" and "q \<notin> ran (drivers w')"
proof -
  from assms(2) obtain p where p: "drivers w k = Some p"
    and r: "w' = w\<lparr>driverMem := driverMem w @ [driverMem w ! p]\<rparr>" "q = length (driverMem w)"
    by (auto simp: GetDriver_def split: option.splits)
  from assms(1) p have "p < length (driverMem w)" by (simp add: allocated_def)
  show "q = length (driverMem w)" by (rule r(2))
  show "grown w w'" by (simp add: r grown_def)
  show "driverOf w k = Some (driverMem w' ! q)" by (simp add: r p driverOf_def)
  show "q < length (driverMem w')" by (simp add: r)
  show "q \<notin> ran (drivers w')"
    using assms(1) by (auto simp: r allocated_def ran_def)
qed

lemma GetOrder_copy:
  assumes "allocated w" and "GetOrder w k = (w', Inr q)"
  shows "q = length (orderMem w)" and "grown w w'" and "orderOf w k = Some (orderMem w' ! q)"
    and "q < length (orderMem w')" and "q \<notin> ran (orders w')"
proof -
  from assms(2) obtain p where p: "orders w k = Some p"
    and r: "w' = w\<lparr>orderMem := orderMem w @ [orderMem w ! p]\<rparr>" "q = length (orderMem w)"
    by (auto simp: GetOrder_def split: option.splits)
  show "q = length (orderMem w)" by (rule r(2))
  show "grown w w'" by (simp add: r grown_def)
  show "orderOf w k = Some (orderMem w' ! q)" by (simp add: r p orderOf_def)
  show "q < length (orderMem w')" by (simp add: r)
  show "q \<notin> ran (orders w')"
    using assms(1) by (auto simp: r allocated_def ran_def)
qed

lemma private_driver_write:
  assumes "q \<notin> ran (drivers w)"
  shows "driverOf (write_driver w q x) = driverOf w" and "orderOf (write_driver w q x) = orderOf w"
proof -
  show "driverOf (write_driver w q x) = driverOf w"
  proof
    fix k show "driverOf (write_driver w q x) k = driverOf w k"
    proof (cases "drivers w k")
      case None
      then show ?thesis by (simp add: driverOf_def write_driver_def)
    next
      case (Some p)
      with assms have "p \<noteq> q" by (auto simp: ran_def)
      with Some show ?thesis by (simp add: driverOf_def write_driver_def)
    qed
  qed
  show "orderOf (write_driver w q x) = orderOf w"
    by (rule ext) (simp add: orderOf_def write_driver_def)
qed

lemma private_order_write:
  assumes "q \<notin> ran (orders w)"
  shows "orderOf (write_order w q x) = orderOf w" and "driverOf (write_order w q x) = driverOf w"
proof -
  show "orderOf (write_order w q x) = orderOf w"
  proof
    fix k show "orderOf (write_order w q x) k = orderOf w k"
    proof (cases "orders w k")
      case None
      then show ?thesis by (simp add: orderOf_def write_order_def)
    next
      case (Some p)
      with assms have "p \<noteq> q" by (auto simp: ran_def)
      with Some show ?thesis by (simp add: orderOf_def write_order_def)
    qed
  qed
  show "driverOf (write_order w q x) = driverOf w"
    by (rule ext) (simp add: driverOf_def write_order_def)
qed

lemma grown_private:
  assumes "grown w w'" and "q < length (driverMem w)" and "q \<notin> ran (drivers w)"
  shows "driverMem w' ! q = driverMem w ! q \<and> q < length (driverMem w')
       \<and> q \<notin> ran (drivers w')"
  using assms by (auto simp: grown_def prefix_def nth_append)

lemma grown_private_order:
  assumes "grown w w'" and "q < length (orderMem w)" and "q \<notin> ran (orders w)"
  shows "orderMem w' ! q = orderMem w ! q \<and> q < length (orderMem w')
       \<and> q \<notin> ran (orders w')"
  using assms by (auto simp: grown_def prefix_def nth_append)

lemma private_driver_exec:
  assumes "q < length (driverMem w)" and "q \<notin> ran (drivers w)"
    and "\<not> submits_driver op q"
  shows "driverMem (exec w op) ! q = driverMem w ! q \<and> q < length (driverMem (exec w op))
       \<and> q \<notin> ran (drivers (exec w op))"
proof -
  have ne: "p \<noteq> q" if "drivers w k = Some p" for k p
    using that assms(2) by (auto simp: ran_def)
  show ?thesis
  proof (cases op)
  case (Op_NewDriver d)
  with assms show ?thesis by (simp add: nth_append)
next
  case (Op_NewOrder r)
  with assms show ?thesis by simp
next
  case (Op_UpsertDriver p now)
  with assms show ?thesis
    by (auto simp: DriverUseCase_CreateOrUpdateDriver_def CreateOrUpdateDriver_def Let_def
          ran_def dest: ne)
next
  case (Op_GetDriver k)
  with grown_private [OF reads_grown(1) assms(1,2)] show ?thesis by simp
next
  case (Op_ListDrivers ks)
  with grown_private [OF reads_grown(3) assms(1,2)] show ?thesis by simp
next
  case (Op_SetDriverStatus k st now)
  with assms show ?thesis
    by (auto simp: UpdateDriverStatus_def dest: ne split: option.splits)
next
  case (Op_ListAvailableDrivers ks)
  with grown_private [OF reads_grown(6) assms(1,2)] show ?thesis by simp
next
  case (Op_CreateOrder p now)
  with assms show ?thesis
    by (auto simp: OrderUseCase_CreateOrder_def CreateOrder_def Let_def ran_def dest: ne)
next
  case (Op_GetOrder k)
  with grown_private [OF reads_grown(2) assms(1,2)] show ?thesis by simp
next
  case (Op_ListOrders ks)
  with grown_private [OF reads_grown(4) assms(1,2)] show ?thesis by simp
next
  case (Op_ListPendingOrders ks)
  with grown_private [OF reads_grown(5) assms(1,2)] show ?thesis by simp
next
  case (Op_SetOrderStatus k st now)
  with assms show ?thesis
    by (auto simp: UpdateOrderStatus_def dest: ne split: option.splits)
next
  case (Op_AssignOrderToDriver a d t1 t2)
  with assms show ?thesis
    by (auto simp: AssignOrderToDriver_def dest: ne split: option.splits)
next
  case (Op_Snapshot dks oks now)
  with grown_private [OF GetSnapshot_grown assms(1,2)] show ?thesis by simp
qed
qed

lemma private_order_exec:
  assumes "q < length (orderMem w)" and "q \<notin> ran (orders w)"
    and "\<not> submits_order op q"
  shows "orderMem (exec w op) ! q = orderMem w ! q \<and> q < length (orderMem (exec w op))
       \<and> q \<notin> ran (orders (exec w op))"
proof -
  have ne: "p \<noteq> q" if "orders w k = Some p" for k p
    using that assms(2) by (auto simp: ran_def)
  show ?thesis
  proof (cases op)
  case (Op_NewDriver d)
  with assms show ?thesis by simp
next
  case (Op_NewOrder r)
  with assms show ?thesis by (simp add: nth_append)
next
  case (Op_UpsertDriver p now)
  with assms show ?thesis
    by (auto simp: DriverUseCase_CreateOrUpdateDriver_def CreateOrUpdateDriver_def Let_def
          ran_def dest: ne)
next
  case (Op_GetDriver k)
  with grown_private_order [OF reads_grown(1) assms(1,2)] show ?thesis by simp
next
  case (Op_ListDrivers ks)
  with grown_private_order [OF reads_grown(3) assms(1,2)] show ?thesis by simp
next
  case (Op_SetDriverStatus k st now)
  with assms show ?thesis
    by (auto simp: UpdateDriverStatus_def dest: ne split: option.splits)
next
  case (Op_ListAvailableDrivers ks)
  with grown_private_order [OF reads_grown(6) assms(1,2)] show ?thesis by simp
next
  case (Op_CreateOrder p now)
  with assms show ?thesis
    by (auto simp: OrderUseCase_CreateOrder_def CreateOrder_def Let_def ran_def dest: ne)
next
  case (Op_GetOrder k)
  with grown_private_order [OF reads_grown(2) assms(1,2)] show ?thesis by simp
next
  case (Op_ListOrders ks)
  with grown_private_order [OF reads_grown(4) assms(1,2)] show ?thesis by simp
next
  case (Op_ListPendingOrders ks)
  with grown_private_order [OF reads_grown(5) assms(1,2)] show ?thesis by simp
next
  case (Op_SetOrderStatus k st now)
  with assms show ?thesis
    by (auto simp: UpdateOrderStatus_def dest: ne split: option.splits)
next
  case (Op_AssignOrderToDriver a d t1 t2)
  with assms show ?thesis
    by (auto simp: AssignOrderToDriver_def dest: ne split: option.splits)
next
  case (Op_Snapshot dks oks now)
  with grown_private_order [OF GetSnapshot_grown assms(1,2)] show ?thesis by simp
qed
qed

lemma private_driver_foldl:
  "q < length (driverMem w) \<Longrightarrow> q \<notin> ran (drivers w) \<Longrightarrow> \<forall>op \<in> set ops. \<not> submits_driver op q
     \<Longrightarrow> driverMem (foldl exec w ops) ! q = driverMem w ! q"
proof (induction ops arbitrary: w)
  case Nil
  show ?case by simp
next
  case (Cons op ops)
  from Cons.prems have n: "\<not> submits_driver op q" by simp
  note s = private_driver_exec [OF Cons.prems(1,2) n]
  from s Cons.prems(3) have "driverMem (foldl exec (exec w op) ops) ! q = driverMem (exec w op) ! q"
    by (intro Cons.IH) simp_all
  with s show ?case by simp
qed

lemma private_order_foldl:
  "q < length (orderMem w) \<Longrightarrow> q \<notin> ran (orders w) \<Longrightarrow> \<forall>op \<in> set ops. \<not> submits_order op q
     \<Longrightarrow> orderMem (foldl exec w ops) ! q = orderMem w ! q"
proof (induction ops arbitrary: w)
  case Nil
  show ?case by simp
next
  case (Cons op ops)
  from Cons.prems have n: "\<not> submits_order op q" by simp
  note s = private_order_exec [OF Cons.prems(1,2) n]
  from s Cons.prems(3) have "orderMem (foldl exec (exec w op) ops) ! q = orderMem (exec w op) ! q"
    by (intro Cons.IH) simp_all
  with s show ?case by simp
qed

text \<open>
  The record a read returns is a copy of its own. \<^verbatim>\<open>GetDriver\<close> returns a pointer to an
  object that did not exist before the call and that no entry of the store points to; it
  holds the record the store holds. Whatever the store does afterwards, short of being
  handed that very pointer in an upsert, the object keeps its content; and a caller writing
  through the pointer changes no record the store holds. The same for \<^verbatim>\<open>GetOrder\<close>.
\<close>

lemma GetDriver_copy_independent:
  assumes "allocated w" and "GetDriver w k = (w', Inr q)"
    and "\<forall>op \<in> set ops. \<not> submits_driver op q"
  shows "driverOf w k = Some (driverMem w' ! q)"
    and "driverMem (foldl exec w' ops) ! q = driverMem w' ! q"
    and "driverOf (write_driver w' q x) = driverOf w'"
  using GetDriver_copy [OF assms(1,2)] private_driver_foldl [where q = q and w = w' and ops = ops] assms(3)
    private_driver_write(1) [where w = w' and q = q and x = x]
  by simp_all

lemma GetOrder_copy_independent:
  assumes "allocated w" and "GetOrder w k = (w', Inr q)"
    and "\<forall>op \<in> set ops. \<not> submits_order op q"
  shows "orderOf w k = Some (orderMem w' ! q)"
    and "orderMem (foldl exec w' ops) ! q = orderMem w' ! q"
    and "orderOf (write_order w' q x) = orderOf w'"
  using GetOrder_copy [OF assms(1,2)] private_order_foldl [where q = q and w = w' and ops = ops] assms(3)
    private_order_write(1) [where w = w' and q = q and x = x]
  by simp_all


lemma fresh_driver_private:
  assumes "allocated w" and "grown w w'" and "length (driverMem w) \<le> q"
  shows "q \<notin> ran (drivers w')"
  using assms by (fastforce simp: allocated_def grown_def ran_def)

lemma fresh_order_private:
  assumes "allocated w" and "grown w w'" and "length (orderMem w) \<le> q"
  shows "q \<notin> ran (orders w')"
  using assms by (fastforce simp: allocated_def grown_def ran_def)

lemma list_reads_fresh:
  assumes "allocated w"
  shows "set (snd (GetAllDrivers w ks))
           = {length (driverMem w) ..< length (driverMem (fst (GetAllDrivers w ks)))}"
    and "set (snd (GetAvailableDrivers w ks))
           = {length (driverMem w) ..< length (driverMem (fst (GetAvailableDrivers w ks)))}"
    and "set (snd (GetAllOrders w ks))
           = {length (orderMem w) ..< length (orderMem (fst (GetAllOrders w ks)))}"
    and "set (snd (GetPendingOrders w ks))
           = {length (orderMem w) ..< length (orderMem (fst (GetPendingOrders w ks)))}"
proof -
  have d: "\<forall>p \<in> set (range_values (drivers w) ks). p < length (driverMem w)"
    using assms by (auto simp: allocated_def dest: range_values_set)
  have o: "\<forall>p \<in> set (range_values (orders w) ks). p < length (orderMem w)"
    using assms by (auto simp: allocated_def dest: range_values_set)
  show "set (snd (GetAllDrivers w ks))
           = {length (driverMem w) ..< length (driverMem (fst (GetAllDrivers w ks)))}"
    by (simp add: GetAllDrivers_def copy_drivers_closed [OF d])
  show "set (snd (GetAvailableDrivers w ks))
           = {length (driverMem w) ..< length (driverMem (fst (GetAvailableDrivers w ks)))}"
    by (simp add: GetAvailableDrivers_def copy_drivers_closed [OF d])
  show "set (snd (GetAllOrders w ks))
           = {length (orderMem w) ..< length (orderMem (fst (GetAllOrders w ks)))}"
    by (simp add: GetAllOrders_def copy_orders_closed [OF o])
  show "set (snd (GetPendingOrders w ks))
           = {length (orderMem w) ..< length (orderMem (fst (GetPendingOrders w ks)))}"
    by (simp add: GetPendingOrders_def copy_orders_closed [OF o])
qed

lemma snapshot_drivers_fresh:
  assumes "\<forall>k q. snap k = Some q \<longrightarrow> n \<le> q \<and> q < length mem" and "n \<le> length mem"
    and "snapshot_drivers m ks mem snap = (mem', snap')"
  shows "\<forall>k q. snap' k = Some q \<longrightarrow> n \<le> q \<and> q < length mem'"
  using assms
proof (induction ks arbitrary: mem snap)
  case Nil
  then show ?case by simp
next
  case (Cons k ks)
  show ?case
  proof (cases "m k")
    case None
    with Cons.prems Cons.IH [of snap mem] show ?thesis by simp
  next
    case (Some p)
    have 1: "\<forall>k' q. (snap(k \<mapsto> length mem)) k' = Some q \<longrightarrow> n \<le> q \<and> q < length (mem @ [mem ! p])"
      using Cons.prems(1,2) by (auto intro: less_SucI)
    have 2: "n \<le> length (mem @ [mem ! p])" using Cons.prems(2) by simp
    have 3: "snapshot_drivers m ks (mem @ [mem ! p]) (snap(k \<mapsto> length mem)) = (mem', snap')"
      using Cons.prems(3) Some by simp
    from 1 2 3 show ?thesis by (rule Cons.IH)
  qed
qed

lemma snapshot_orders_fresh:
  assumes "\<forall>k q. snap k = Some q \<longrightarrow> n \<le> q \<and> q < length mem" and "n \<le> length mem"
    and "snapshot_orders m ks mem snap = (mem', snap')"
  shows "\<forall>k q. snap' k = Some q \<longrightarrow> n \<le> q \<and> q < length mem'"
  using assms
proof (induction ks arbitrary: mem snap)
  case Nil
  then show ?case by simp
next
  case (Cons k ks)
  show ?case
  proof (cases "m k")
    case None
    with Cons.prems Cons.IH [of snap mem] show ?thesis by simp
  next
    case (Some p)
    have 1: "\<forall>k' q. (snap(k \<mapsto> length mem)) k' = Some q \<longrightarrow> n \<le> q \<and> q < length (mem @ [mem ! p])"
      using Cons.prems(1,2) by (auto intro: less_SucI)
    have 2: "n \<le> length (mem @ [mem ! p])" using Cons.prems(2) by simp
    have 3: "snapshot_orders m ks (mem @ [mem ! p]) (snap(k \<mapsto> length mem)) = (mem', snap')"
      using Cons.prems(3) Some by simp
    from 1 2 3 show ?thesis by (rule Cons.IH)
  qed
qed

lemma GetSnapshot_fresh:
  assumes "GetSnapshot w dks oks now = (w', snap)"
  shows "\<forall>k q. Drivers snap k = Some q \<longrightarrow> length (driverMem w) \<le> q \<and> q < length (driverMem w')"
    and "\<forall>k q. Orders snap k = Some q \<longrightarrow> length (orderMem w) \<le> q \<and> q < length (orderMem w')"
proof -
  obtain dmem dsnap where d: "snapshot_drivers (drivers w) dks (driverMem w) Map.empty = (dmem, dsnap)"
    by (cases "snapshot_drivers (drivers w) dks (driverMem w) Map.empty")
  obtain omem osnap where o: "snapshot_orders (orders w) oks (orderMem w) Map.empty = (omem, osnap)"
    by (cases "snapshot_orders (orders w) oks (orderMem w) Map.empty")
  from assms d o have r: "driverMem w' = dmem" "orderMem w' = omem" "Drivers snap = dsnap"
    "Orders snap = osnap"
    by (auto simp: GetSnapshot_def)
  show "\<forall>k q. Drivers snap k = Some q \<longrightarrow> length (driverMem w) \<le> q \<and> q < length (driverMem w')"
    unfolding r by (rule snapshot_drivers_fresh [OF _ _ d]) simp_all
  show "\<forall>k q. Orders snap k = Some q \<longrightarrow> length (orderMem w) \<le> q \<and> q < length (orderMem w')"
    unfolding r by (rule snapshot_orders_fresh [OF _ _ o]) simp_all
qed

end
